theory Spec2Isabelle
  imports Complex_Main
begin

section \<open>Numbers of the host language\<close>

text \<open>
  A TypeScript \<open>number\<close> is modelled as either the not-a-number value or a real. Arithmetic
  is exact; the infinities and negative zero are not represented. An arithmetic operation
  with a \<open>NaN\<close> operand yields \<open>NaN\<close>. Reading a literal rounds to a double, and
  printing prints the nearest double, as below.
\<close>

datatype number = NaN | Num real

fun lift2 :: "(real \<Rightarrow> real \<Rightarrow> real) \<Rightarrow> number \<Rightarrow> number \<Rightarrow> number" where
  "lift2 f (Num x) (Num y) = Num (f x y)"
| "lift2 f _ _ = NaN"

definition add :: "number \<Rightarrow> number \<Rightarrow> number" where
  "add = lift2 (+)"

definition sub :: "number \<Rightarrow> number \<Rightarrow> number" where
  "sub = lift2 (-)"

definition mul :: "number \<Rightarrow> number \<Rightarrow> number" where
  "mul = lift2 (*)"

text \<open>
  Division. Every divisor in the source is a non-zero constant, except in
  \<open>getContrastRatio\<close>; a zero divisor gives an infinity or \<open>NaN\<close> in the source and is
  \<open>NaN\<close> here.
\<close>

fun divide_num :: "number \<Rightarrow> number \<Rightarrow> number" where
  "divide_num (Num x) (Num y) = (if y = 0 then NaN else Num (x / y))"
| "divide_num _ _ = NaN"

text \<open>\<open>Math.min\<close> and \<open>Math.max\<close>: \<open>NaN\<close> if an argument is \<open>NaN\<close>.\<close>

definition Math_min :: "number \<Rightarrow> number \<Rightarrow> number" where
  "Math_min = lift2 min"

definition Math_max :: "number \<Rightarrow> number \<Rightarrow> number" where
  "Math_max = lift2 max"

text \<open>The remainder operator \<open>%\<close>: the quotient is truncated toward zero.\<close>

definition trunc :: "real \<Rightarrow> int" where
  "trunc x = (if 0 \<le> x then \<lfloor>x\<rfloor> else \<lceil>x\<rceil>)"

fun rem :: "number \<Rightarrow> number \<Rightarrow> number" where
  "rem (Num x) (Num y) = (if y = 0 then NaN else Num (x - y * of_int (trunc (x / y))))"
| "rem _ _ = NaN"

text \<open>\<open>Math.round\<close>: to the nearest integer, a half goes up.\<close>

fun Math_round :: "number \<Rightarrow> number" where
  "Math_round (Num x) = Num (of_int \<lfloor>x + 1 / 2\<rfloor>)"
| "Math_round NaN = NaN"

text \<open>
  \<open>Number(x.toFixed(3))\<close>: the nearest multiple of a thousandth, a half goes away from
  zero; from \<open>10^21\<close> on \<open>toFixed\<close> prints the number itself.
\<close>

fun toFixed3 :: "number \<Rightarrow> number" where
  "toFixed3 (Num x) =
     (if 10 ^ 21 \<le> \<bar>x\<bar> then Num x
      else Num (sgn x * of_int \<lfloor>\<bar>x\<bar> * 1000 + 1 / 2\<rfloor> / 1000))"
| "toFixed3 NaN = NaN"

subsection \<open>Doubles\<close>

text \<open>
  A finite double is \<open>m * 2^p\<close> with an integer \<open>\<bar>m\<bar> < 2^53\<close> and \<open>-1074 \<le> p \<le> 971\<close>.
  \<open>toDouble\<close> rounds a real to the nearest double, a tie to the even \<open>m\<close>; overflow to an
  infinity is not represented. The binary exponent of \<open>v > 0\<close> is found by doubling or
  halving, and is held at \<open>-1022\<close> for the subnormal numbers.
\<close>

definition pow2 :: "int \<Rightarrow> real" where
  "pow2 p = (if 0 \<le> p then 2 ^ nat p else 1 / 2 ^ nat (- p))"

definition roundHalfEven :: "real \<Rightarrow> int" where
  "roundHalfEven y =
     (let f = \<lfloor>y\<rfloor>; r = y - of_int f
      in if r < 1 / 2 then f else if 1 / 2 < r then f + 1 else if even f then f else f + 1)"

fun binaryExponentUp :: "nat \<Rightarrow> real \<Rightarrow> nat" where
  "binaryExponentUp 0 v = 0"
| "binaryExponentUp (Suc k) v = (if 1 \<le> v then 0 else Suc (binaryExponentUp k (v * 2)))"

fun binaryExponentDown :: "nat \<Rightarrow> real \<Rightarrow> nat" where
  "binaryExponentDown 0 v = 0"
| "binaryExponentDown (Suc k) v = (if v < 2 then 0 else Suc (binaryExponentDown k (v / 2)))"

definition binaryExponent :: "real \<Rightarrow> int" where
  "binaryExponent v =
     (if 1 \<le> v then int (binaryExponentDown 1023 v) else - int (binaryExponentUp 1022 v))"

definition toDoublePos :: "real \<Rightarrow> real" where
  "toDoublePos v =
     (let p = binaryExponent v - 52 in of_int (roundHalfEven (v / pow2 p)) * pow2 p)"

definition toDouble :: "real \<Rightarrow> real" where
  "toDouble x = (if x = 0 then 0 else if x < 0 then - toDoublePos (- x) else toDoublePos x)"

definition isDouble :: "real \<Rightarrow> bool" where
  "isDouble x = (toDouble x = x)"

section \<open>Strings of the host language\<close>

text \<open>
  Strings are lists of 8-bit characters. The digits of a radix up to 16, lower case as
  \<open>toString\<close> prints them, and their values as \<open>parseInt\<close> and \<open>parseFloat\<close> read them.
\<close>

definition digitChar :: "nat \<Rightarrow> char" where
  "digitChar d = (if d < 10 then char_of (48 + d) else char_of (87 + d))"

definition digitVal :: "char \<Rightarrow> nat option" where
  "digitVal c =
     (let n = (of_char c :: nat) in
      if 48 \<le> n \<and> n \<le> 57 then Some (n - 48)
      else if 97 \<le> n \<and> n \<le> 102 then Some (n - 87)
      else if 65 \<le> n \<and> n \<le> 70 then Some (n - 55)
      else None)"

definition isDigit :: "nat \<Rightarrow> char \<Rightarrow> bool" where
  "isDigit r c = (case digitVal c of None \<Rightarrow> False | Some v \<Rightarrow> v < r)"

definition digitsVal :: "nat \<Rightarrow> string \<Rightarrow> nat" where
  "digitsVal r ds = foldl (\<lambda>acc c. acc * r + the (digitVal c)) 0 ds"

text \<open>White space that \<open>parseInt\<close> and \<open>parseFloat\<close> skip, among 8-bit characters.\<close>

definition isWhiteSpace :: "char \<Rightarrow> bool" where
  "isWhiteSpace c = ((of_char c :: nat) \<in> {9, 10, 11, 12, 13, 32, 160})"

text \<open>An optional sign in front of a numeric literal.\<close>

fun readSign :: "string \<Rightarrow> bool \<times> string" where
  "readSign [] = (False, [])"
| "readSign (c # cs) =
     (if c = CHR ''-'' then (True, cs)
      else if c = CHR ''+'' then (False, cs)
      else (False, c # cs))"

definition signed :: "bool \<Rightarrow> real \<Rightarrow> real" where
  "signed neg x = (if neg then - x else x)"

subsection \<open>\<open>parseInt\<close>\<close>

text \<open>
  \<open>parseInt(s, r)\<close> skips white space, reads a sign, for radix 16 an optional \<open>0x\<close>, and
  then the longest run of digits of the radix; with no digit the result is \<open>NaN\<close>,
  otherwise the double nearest to the integer read.
\<close>

definition stripHexPrefix :: "nat \<Rightarrow> string \<Rightarrow> string" where
  "stripHexPrefix r s =
     (if r = 16 \<and> (take 2 s = ''0x'' \<or> take 2 s = ''0X'') then drop 2 s else s)"

definition parseInt :: "string \<Rightarrow> nat \<Rightarrow> number" where
  "parseInt s r =
     (let (neg, s1) = readSign (dropWhile isWhiteSpace s);
          ds = takeWhile (isDigit r) (stripHexPrefix r s1)
      in if ds = [] then NaN else Num (toDouble (signed neg (real (digitsVal r ds)))))"

subsection \<open>\<open>parseFloat\<close>\<close>

text \<open>
  \<open>parseFloat(s)\<close> skips white space and reads the longest prefix that is a decimal
  literal: a sign, digits, a fraction, and an exponent if digits follow the \<open>e\<close>. The
  result is the double nearest to the value of the literal. The literal \<open>Infinity\<close> has no
  value in this model and reads as \<open>NaN\<close>.
\<close>

definition readExponent :: "string \<Rightarrow> int" where
  "readExponent s =
     (case s of
        [] \<Rightarrow> 0
      | c # cs \<Rightarrow>
          if c = CHR ''e'' \<or> c = CHR ''E'' then
            (let (neg, s1) = readSign cs;
                 ds = takeWhile (isDigit 10) s1
             in if ds = [] then 0
                else if neg then - int (digitsVal 10 ds) else int (digitsVal 10 ds))
          else 0)"

definition readFraction :: "string \<Rightarrow> string \<times> string" where
  "readFraction s =
     (case s of
        [] \<Rightarrow> ([], [])
      | c # cs \<Rightarrow>
          if c = CHR ''.'' then (takeWhile (isDigit 10) cs, dropWhile (isDigit 10) cs)
          else ([], s))"

definition scale10 :: "real \<Rightarrow> int \<Rightarrow> real" where
  "scale10 x e = (if 0 \<le> e then x * 10 ^ nat e else x / 10 ^ nat (- e))"

definition parseFloat :: "string \<Rightarrow> number" where
  "parseFloat s =
     (let (neg, s1) = readSign (dropWhile isWhiteSpace s);
          ip = takeWhile (isDigit 10) s1;
          (fp, s2) = readFraction (dropWhile (isDigit 10) s1)
      in if ip = [] \<and> fp = [] then NaN
         else Num (toDouble (signed neg
                (scale10 (real (digitsVal 10 ip) + real (digitsVal 10 fp) / 10 ^ length fp)
                   (readExponent s2)))))"

subsection \<open>Printing a number\<close>

text \<open>The digits of a natural number in radix \<open>r\<close>.\<close>

fun showNat :: "nat \<Rightarrow> nat \<Rightarrow> string" where
  "showNat r n =
     (if n < r \<or> r < 2 then [digitChar n]
      else showNat r (n div r) @ [digitChar (n mod r)])"

declare showNat.simps [simp del]

text \<open>
  The digits of a fraction \<open>0 \<le> f < 1\<close>, until the expansion ends or \<open>k\<close> digits are
  printed.
\<close>

fun fracDigits :: "nat \<Rightarrow> nat \<Rightarrow> real \<Rightarrow> string" where
  "fracDigits r 0 f = []"
| "fracDigits r (Suc k) f =
     (if f = 0 then []
      else digitChar (nat \<lfloor>f * real r\<rfloor>) # fracDigits r k (f * real r - of_int \<lfloor>f * real r\<rfloor>))"

definition showFixed :: "nat \<Rightarrow> nat \<Rightarrow> real \<Rightarrow> string" where
  "showFixed r k v =
     showNat r (nat \<lfloor>v\<rfloor>) @
     (let fd = fracDigits r k (v - of_int \<lfloor>v\<rfloor>) in if fd = [] then [] else CHR ''.'' # fd)"

text \<open>
  The decimal exponent: \<open>v\<close> is brought into \<open>[1, 10)\<close> and the steps are counted. A
  non-zero double lies between \<open>10^-324\<close> and \<open>10^309\<close> and is a multiple of \<open>10^-1074\<close>,
  which bounds the searches and the digits after the point.
\<close>

fun scaleUp :: "nat \<Rightarrow> real \<Rightarrow> real \<times> nat" where
  "scaleUp 0 v = (v, 0)"
| "scaleUp (Suc k) v =
     (if 1 \<le> v then (v, 0) else (let (m, e) = scaleUp k (v * 10) in (m, Suc e)))"

fun scaleDown :: "nat \<Rightarrow> real \<Rightarrow> real \<times> nat" where
  "scaleDown 0 v = (v, 0)"
| "scaleDown (Suc k) v =
     (if v < 10 then (v, 0) else (let (m, e) = scaleDown k (v / 10) in (m, Suc e)))"

text \<open>
  The digits of a decimal number \<open>v > 0\<close> as \<open>String\<close> lays them out: plain notation from
  \<open>10^-6\<close> up to \<open>10^21\<close>, scientific notation outside.
\<close>

definition showPos :: "real \<Rightarrow> string" where
  "showPos v =
     (if 10 ^ 21 \<le> v then
        (let (m, e) = scaleDown 309 v in showFixed 10 1074 m @ ''e+'' @ showNat 10 e)
      else if v < 1 / 10 ^ 6 then
        (let (m, e) = scaleUp 1074 v in showFixed 10 1074 m @ ''e-'' @ showNat 10 e)
      else showFixed 10 1074 v)"

text \<open>
  \<open>String(x)\<close> prints the decimal number with the fewest digits whose nearest double is
  \<open>x\<close>. With \<open>10^(n-1) \<le> x < 10^n\<close>, the numbers of \<open>k\<close> digits next to \<open>x\<close> are the
  multiples of \<open>10^(n-k)\<close> below and above it; of two that qualify the one closer to
  \<open>x\<close> is taken, at equal distance the even one. The search ends at the latest when
  \<open>n - k = -1074\<close>, where the number below is \<open>x\<close> itself.
\<close>

definition decimalExponent :: "real \<Rightarrow> int" where
  "decimalExponent x =
     (if 1 \<le> x then int (snd (scaleDown 309 x)) + 1 else 1 - int (snd (scaleUp 1074 x)))"

fun shortestFrom :: "nat \<Rightarrow> nat \<Rightarrow> int \<Rightarrow> real \<Rightarrow> real" where
  "shortestFrom 0 k n x = x"
| "shortestFrom (Suc fuel) k n x =
     (let u = scale10 1 (n - int k);
          s = \<lfloor>x / u\<rfloor>;
          lo = of_int s * u;
          hi = lo + u
      in if toDouble lo = x \<and> toDouble hi = x then
           (if x - lo < hi - x then lo
            else if hi - x < x - lo then hi
            else if even s then lo else hi)
         else if toDouble lo = x then lo
         else if toDouble hi = x then hi
         else shortestFrom fuel (Suc k) n x)"

definition shortest :: "real \<Rightarrow> real" where
  "shortest x = (let n = decimalExponent x in shortestFrom (nat (n + 1074)) 1 n x)"

text \<open>A real that is not a double is printed as the double nearest to it.\<close>

fun numToString :: "number \<Rightarrow> string" where
  "numToString NaN = ''NaN''"
| "numToString (Num v) =
     (let x = toDouble v
      in if x = 0 then ''0''
         else if x < 0 then CHR ''-'' # showPos (shortest (- x))
         else showPos (shortest x))"

text \<open>
  \<open>x.toString(16)\<close>: plain notation in radix 16 (a double has at most 269 hexadecimal
  digits after the point); the digits of \<open>x\<close> itself are printed.
\<close>

fun toString16 :: "number \<Rightarrow> string" where
  "toString16 NaN = ''NaN''"
| "toString16 (Num x) =
     (if x < 0 then CHR ''-'' # showFixed 16 269 (- x) else showFixed 16 269 x)"

subsection \<open>String and array operations\<close>

definition startsWith :: "string \<Rightarrow> string \<Rightarrow> bool" where
  "startsWith s p = (take (length p) s = p)"

text \<open>\<open>s.charAt(i)\<close>: the character as a string, empty past the end.\<close>

definition charAt :: "string \<Rightarrow> nat \<Rightarrow> string" where
  "charAt s i = (if i < length s then [s ! i] else [])"

text \<open>\<open>s.indexOf(c)\<close>: the first position of \<open>c\<close>, or \<open>-1\<close>.\<close>

definition indexOf :: "string \<Rightarrow> char \<Rightarrow> int" where
  "indexOf s c = (if c \<in> set s then int (length (takeWhile (\<lambda>x. x \<noteq> c) s)) else - 1)"

text \<open>
  \<open>s.substring(a, b)\<close>: both positions are brought into \<open>[0, length]\<close> and swapped if
  the first is the larger.
\<close>

definition substring :: "string \<Rightarrow> int \<Rightarrow> int \<Rightarrow> string" where
  "substring s a b =
     (let n = int (length s);
          a' = min (max a 0) n;
          b' = min (max b 0) n;
          from = nat (min a' b');
          to = nat (max a' b')
      in take (to - from) (drop from s))"

text \<open>\<open>s.split(c)\<close>: the pieces between the occurrences of \<open>c\<close>; never empty.\<close>

fun split :: "char \<Rightarrow> string \<Rightarrow> string list" where
  "split c [] = [[]]"
| "split c (x # xs) =
     (if x = c then [] # split c xs
      else (case split c xs of [] \<Rightarrow> [[x]] | g # gs \<Rightarrow> (x # g) # gs))"

text \<open>\<open>xs.join(sep)\<close> on elements that are strings already.\<close>

fun join :: "string \<Rightarrow> string list \<Rightarrow> string" where
  "join sep [] = []"
| "join sep [x] = x"
| "join sep (x # y # ys) = x @ sep @ join sep (y # ys)"

text \<open>
  All matches of the regular expression \<open>.{1,w}\<close> with flag \<open>g\<close>, for \<open>w \<ge> 1\<close>: the dot
  matches every character but a line terminator, and each match is as long as it can be.
  No match at all is \<open>null\<close> in the source and the empty list here.
\<close>

definition isLineTerminator :: "char \<Rightarrow> bool" where
  "isLineTerminator c = ((of_char c :: nat) \<in> {10, 13})"

fun matchAll :: "nat \<Rightarrow> string \<Rightarrow> string list" where
  "matchAll w [] = []"
| "matchAll w (c # cs) =
     (if isLineTerminator c then matchAll w cs
      else (let g = take (w - 1) (takeWhile (\<lambda>x. \<not> isLineTerminator x) cs)
            in (c # g) # matchAll w (drop (length g) cs)))"

text \<open>
  An array is a list whose elements may be holes (\<open>None\<close>). Reading a hole or past the end
  gives \<open>undefined\<close>, also \<open>None\<close>; in arithmetic \<open>undefined\<close> is \<open>NaN\<close>, in a condition it is
  false like \<open>0\<close> and \<open>NaN\<close>; \<open>join\<close> prints it as the empty string and a template as
  \<open>undefined\<close>. Assigning past the end extends the array with holes.
\<close>

definition elemAt :: "'a option list \<Rightarrow> nat \<Rightarrow> 'a option" where
  "elemAt xs i = (if i < length xs then xs ! i else None)"

definition assign :: "'a \<Rightarrow> 'a list \<Rightarrow> nat \<Rightarrow> 'a \<Rightarrow> 'a list" where
  "assign hole xs i v =
     (if i < length xs then xs[i := v] else xs @ replicate (i - length xs) hole @ [v])"

fun toNumber :: "number option \<Rightarrow> number" where
  "toNumber None = NaN"
| "toNumber (Some x) = x"

fun truthy :: "number option \<Rightarrow> bool" where
  "truthy (Some (Num x)) = (x \<noteq> 0)"
| "truthy _ = False"

fun joined :: "number option \<Rightarrow> string" where
  "joined None = []"
| "joined (Some x) = numToString x"

fun template :: "number option \<Rightarrow> string" where
  "template None = ''undefined''"
| "template (Some x) = numToString x"

section \<open>The colour library\<close>

text \<open>
  \<open>ColorObject\<close> as it is at run time: the type is a string, the values an array. An
  argument of type \<open>ColorObject | string\<close> is a \<open>color\<close>. The only error thrown is the one of
  \<open>decomposeColor\<close>, whose message quotes the colour string.
\<close>

record ColorObject =
  type :: string
  "values" :: "number option list"

datatype color = Str string | Obj ColorObject

datatype error = Unsupported string

text \<open>The type guards, lines 12 to 19. Of a colour object only the shape is tested.\<close>

definition isColorType :: "string \<Rightarrow> bool" where
  "isColorType input = (input \<in> set [''rgb'', ''rgba'', ''hsl'', ''hsla''])"

fun isColorObject :: "color \<Rightarrow> bool" where
  "isColorObject (Obj c) = True"
| "isColorObject (Str s) = False"

text \<open>\<open>clamp\<close>, lines 29 and 30; the source defaults the bounds to 0 and 1.\<close>

definition clamp :: "number \<Rightarrow> number \<Rightarrow> number \<Rightarrow> number" where
  "clamp v lo hi = Math_min (Math_max lo v) hi"

text \<open>\<open>hexToRgb\<close>, lines 38 to 57.\<close>

definition hexToRgb :: "string \<Rightarrow> string" where
  "hexToRgb color0 =
     (let color = drop 1 color0;
          colors = matchAll (if 6 \<le> length color then 2 else 1) color;
          colors = (if colors \<noteq> [] \<and> length (hd colors) = 1
                    then map (\<lambda>n. n @ n) colors else colors)
      in if colors \<noteq> [] then
           ''rgb'' @ (if length colors = 4 then ''a'' else '''') @ ''('' @
           join '', ''
             (map (\<lambda>(index, n). numToString
                     (if index < 3 then parseInt n 16
                      else divide_num
                             (Math_round (mul (divide_num (parseInt n 16) (Num 255)) (Num 1000)))
                             (Num 1000)))
                (enumerate 0 colors)) @
           '')''
         else '''')"

text \<open>\<open>intToHex\<close>, lines 59 to 62.\<close>

definition intToHex :: "number \<Rightarrow> string" where
  "intToHex n = (let hex = toString16 n in if length hex = 1 then CHR ''0'' # hex else hex)"

text \<open>
  \<open>decomposeColor\<close>, lines 118 to 143. The first equation is the branch of
  \<open>isColorObject\<close>. The call on the result of \<open>hexToRgb\<close> ends at once, since that result
  never starts with \<open>#\<close>.
\<close>

function decomposeColor :: "color \<Rightarrow> error + ColorObject" where
  "decomposeColor (Obj c) = Inr c"
| "decomposeColor (Str color) =
     (if charAt color 0 = ''#'' then decomposeColor (Str (hexToRgb color))
      else
        (let marker = indexOf color CHR ''('';
             type = substring color 0 marker
         in if \<not> isColorType type then Inl (Unsupported color)
            else Inr \<lparr>type = type,
                      values = map (\<lambda>value. Some (parseFloat value))
                                 (split CHR '','' (substring color (marker + 1) (int (length color) - 1)))\<rparr>))"
  by pat_completeness auto
termination
  by (relation "measure (\<lambda>c. case c of Str s \<Rightarrow> (if charAt s 0 = ''#'' then 1 else 0) | Obj _ \<Rightarrow> 0)")
     (simp_all add: hexToRgb_def charAt_def Let_def)

declare decomposeColor.simps(2) [simp del]

text \<open>
  \<open>recomposeColor\<close>, lines 151 to 164. \<open>map\<close> leaves holes as they are, and \<open>parseInt\<close> is
  given the number as a string.
\<close>

definition recomposeColor :: "ColorObject \<Rightarrow> string" where
  "recomposeColor color =
     (let entries =
            (if startsWith (type color) ''rgb'' then
               map (\<lambda>(i, e). case e of
                                None \<Rightarrow> None
                              | Some n \<Rightarrow> Some (if i < 3 then parseInt (numToString n) 10 else n))
                 (enumerate 0 (values color))
             else values color);
          entries =
            (if \<not> startsWith (type color) ''rgb'' \<and> startsWith (type color) ''hsl'' then
               assign [] (assign [] (map joined entries) 1 (template (elemAt (values color) 1) @ ''%''))
                 2 (template (elemAt (values color) 2) @ ''%'')
             else map joined entries)
      in type color @ ''('' @ join '', '' entries @ '')'')"

text \<open>\<open>rgbToHex\<close>, lines 70 to 77.\<close>

definition rgbToHex :: "color \<Rightarrow> error + string" where
  "rgbToHex color =
     (case (case color of
              Str s \<Rightarrow> if startsWith s ''#'' then Some s else None
            | Obj _ \<Rightarrow> None) of
        Some s \<Rightarrow> Inr s
      | None \<Rightarrow>
          (case decomposeColor color of
             Inl e \<Rightarrow> Inl e
           | Inr c \<Rightarrow>
               Inr (CHR ''#'' # concat (map (\<lambda>e. case e of None \<Rightarrow> [] | Some n \<Rightarrow> intToHex n)
                                         (values c)))))"

text \<open>
  \<open>hslToRgb\<close>, lines 87 to 105: the colour object that is handed to \<open>recomposeColor\<close>,
  computed from the decomposed colour.
\<close>

definition hslToRgbObject :: "ColorObject \<Rightarrow> ColorObject" where
  "hslToRgbObject c =
     (let h = toNumber (elemAt (values c) 0);
          s = divide_num (toNumber (elemAt (values c) 1)) (Num 100);
          l = divide_num (toNumber (elemAt (values c) 2)) (Num 100);
          a = mul s (Math_min l (sub (Num 1) l));
          f = (\<lambda>n. let k = rem (add n (divide_num h (Num 30))) (Num 12)
                   in sub l (mul a (Math_max
                                      (Math_min (Math_min (sub k (Num 3)) (sub (Num 9) k)) (Num 1))
                                      (Num (- 1)))));
          rgb = [Some (Math_round (mul (f (Num 0)) (Num 255))),
                 Some (Math_round (mul (f (Num 8)) (Num 255))),
                 Some (Math_round (mul (f (Num 4)) (Num 255)))]
      in if type c = ''hsla'' \<and> truthy (elemAt (values c) 3)
         then \<lparr>type = ''rgba'', values = rgb @ [elemAt (values c) 3]\<rparr>
         else \<lparr>type = ''rgb'', values = rgb\<rparr>)"

text \<open>\<open>hslToRgb\<close>, lines 85 to 108.\<close>

definition hslToRgb :: "color \<Rightarrow> error + string" where
  "hslToRgb color =
     (case decomposeColor color of
        Inl e \<Rightarrow> Inl e
      | Inr c \<Rightarrow> Inr (recomposeColor (hslToRgbObject c)))"

text \<open>The transfer function that \<open>getLuminance\<close> maps over the channels.\<close>

fun linearized :: "number \<Rightarrow> number" where
  "linearized NaN = NaN"
| "linearized (Num v) =
     (let val = v / 255
      in Num (if val \<le> 0.03928 then val / 12.92 else ((val + 0.055) / 1.055) powr 2.4))"

text \<open>\<open>getLuminance\<close>, lines 193 to 207.\<close>

definition getLuminance :: "color \<Rightarrow> error + number" where
  "getLuminance color0 =
     (case decomposeColor color0 of
        Inl e \<Rightarrow> Inl e
      | Inr color \<Rightarrow>
          (case (if type color = ''hsl''
                 then (case hslToRgb (Obj color) of
                         Inl e \<Rightarrow> Inl e
                       | Inr s \<Rightarrow> (case decomposeColor (Str s) of
                                     Inl e \<Rightarrow> Inl e
                                   | Inr c \<Rightarrow> Inr (values c)))
                 else Inr (values color)) of
             Inl e \<Rightarrow> Inl e
           | Inr vs \<Rightarrow>
               (let rgb = map (map_option linearized) vs
                in Inr (toFixed3
                     (add (add (mul (Num 0.2126) (toNumber (elemAt rgb 0)))
                               (mul (Num 0.7152) (toNumber (elemAt rgb 1))))
                          (mul (Num 0.0722) (toNumber (elemAt rgb 2))))))))"

text \<open>\<open>getContrastRatio\<close>, lines 175 to 182.\<close>

definition getContrastRatio :: "string \<Rightarrow> string \<Rightarrow> error + number" where
  "getContrastRatio foreground background =
     (case getLuminance (Str foreground) of
        Inl e \<Rightarrow> Inl e
      | Inr lumA \<Rightarrow>
          (case getLuminance (Str background) of
             Inl e \<Rightarrow> Inl e
           | Inr lumB \<Rightarrow>
               Inr (divide_num (add (Math_max lumA lumB) (Num 0.05))
                               (add (Math_min lumA lumB) (Num 0.05)))))"

text \<open>
  \<open>fade\<close>, lines 232 to 237: the decomposed colour after the type and the fourth value
  are set. The source changes the object in place; the model returns the changed copy.
\<close>

definition faded :: "ColorObject \<Rightarrow> number \<Rightarrow> ColorObject" where
  "faded color value0 =
     (let value = clamp value0 (Num 0) (Num 1);
          color = (if type color = ''rgb'' \<or> type color = ''hsl''
                   then color\<lparr>type := type color @ ''a''\<rparr> else color)
      in color\<lparr>values := assign None (values color) 3 (Some value)\<rparr>)"

text \<open>\<open>fade\<close>, lines 230 to 240.\<close>

definition fade :: "color \<Rightarrow> number \<Rightarrow> error + string" where
  "fade color value =
     (case decomposeColor color of
        Inl e \<Rightarrow> Inl e
      | Inr c \<Rightarrow> Inr (recomposeColor (faded c value)))"

text \<open>
  The text before the first parenthesis, which \<open>decomposeColor\<close> takes for the type of a
  colour in function notation (lines 127 and 128).
\<close>

definition functionName :: "string \<Rightarrow> string" where
  "functionName color = substring color 0 (indexOf color CHR ''('')"

text \<open>
  \<open>s.toLowerCase()\<close> on ASCII letters. Two strings are equal up to letter case when their
  lower-case forms are equal.
\<close>

definition lowerChar :: "char \<Rightarrow> char" where
  "lowerChar c =
     (if 65 \<le> (of_char c :: nat) \<and> (of_char c :: nat) \<le> 90
      then char_of ((of_char c :: nat) + 32) else c)"

definition toLowerCase :: "string \<Rightarrow> string" where
  "toLowerCase s = map lowerChar s"

section \<open>The parser\<close>

lemma matchAll_Nil: "(matchAll w s = []) = (\<forall>c \<in> set s. isLineTerminator c)"
  by (induction s) (auto simp: Let_def)

lemma hexToRgb_Nil: "(hexToRgb s = []) = (matchAll (if 6 \<le> length (drop 1 s) then 2 else 1) (drop 1 s) = [])"
  by (simp add: hexToRgb_def Let_def)

lemma hexToRgb_charAt: "charAt (hexToRgb s) 0 \<noteq> ''#''"
  by (simp add: hexToRgb_def charAt_def Let_def)

lemma hexToRgb_shape:
  "hexToRgb s = [] \<or> (\<exists>r. hexToRgb s = ''rgb('' @ r) \<or> (\<exists>r. hexToRgb s = ''rgba('' @ r)"
  by (simp add: hexToRgb_def Let_def)

lemma functionName_rgb: "functionName (''rgb('' @ r) = ''rgb''"
  by (simp add: functionName_def indexOf_def substring_def)

lemma functionName_rgba: "functionName (''rgba('' @ r) = ''rgba''"
  by (simp add: functionName_def indexOf_def substring_def)

lemma functionName_Nil: "functionName [] = []"
  by (simp add: functionName_def indexOf_def substring_def)

lemma functionName_hexToRgb: "isColorType (functionName (hexToRgb s)) = (hexToRgb s \<noteq> [])"
proof -
  consider "hexToRgb s = []" | r where "hexToRgb s = ''rgb('' @ r"
    | r where "hexToRgb s = ''rgba('' @ r"
    using hexToRgb_shape by blast
  then show ?thesis
  proof cases
    case 1
    then show ?thesis by (simp add: functionName_Nil isColorType_def)
  next
    case 2
    have "functionName (hexToRgb s) = ''rgb''" by (simp only: 2 functionName_rgb)
    then show ?thesis using 2 by (simp add: isColorType_def)
  next
    case 3
    have "functionName (hexToRgb s) = ''rgba''" by (simp only: 3 functionName_rgba)
    then show ?thesis using 3 by (simp add: isColorType_def)
  qed
qed

lemma decomposeColor_function_notation:
  "charAt s 0 \<noteq> ''#'' \<Longrightarrow>
   (\<exists>e. decomposeColor (Str s) = Inl e) = (\<not> isColorType (functionName s))"
  by (simp add: decomposeColor.simps(2) Let_def functionName_def)

text \<open>
  C5, as the source has it: \<open>decomposeColor\<close> returns its argument unchanged exactly when
  \<open>isColorObject\<close> accepts it, that is for every object with a string for its type and an
  array for its values. The type is not compared with the four colour types.
\<close>

theorem decomposeColor_passes_objects:
  "(\<exists>c. input = Obj c \<and> decomposeColor input = Inr c) = isColorObject input"
  by (cases input) simp_all

theorem decomposeColor_passes_objects_witness:
  "isColorObject (Obj \<lparr>type = ''rgb'', values = [Some (Num 1), Some (Num 2), Some (Num 3)]\<rparr>)
   \<and> decomposeColor (Obj \<lparr>type = ''rgb'', values = [Some (Num 1), Some (Num 2), Some (Num 3)]\<rparr>)
       = Inr \<lparr>type = ''rgb'', values = [Some (Num 1), Some (Num 2), Some (Num 3)]\<rparr>"
  using decomposeColor_passes_objects
    [of "Obj \<lparr>type = ''rgb'', values = [Some (Num 1), Some (Num 2), Some (Num 3)]\<rparr>"]
  by simp

text \<open>
  An object whose type is none of the four colour types is returned unchanged all the
  same.
\<close>

theorem decomposeColor_unknown_type_passes:
  "decomposeColor (Obj \<lparr>type = ''cmyk'', values = [Some (Num 1), Some (Num 2), Some (Num 3)]\<rparr>)
     = Inr \<lparr>type = ''cmyk'', values = [Some (Num 1), Some (Num 2), Some (Num 3)]\<rparr>
   \<and> \<not> isColorType ''cmyk''"
  by (simp add: isColorType_def)

text \<open>
  C6, as the source has it: \<open>hexToRgb\<close> returns the empty string exactly when the regular
  expression finds no group, that is when nothing but line terminators follows the first
  character. For every other string, whether its characters are hexadecimal digits or
  not, the result starts with \<open>rgb(\<close> or \<open>rgba(\<close>.
\<close>

theorem hexToRgb_empty_iff:
  "(hexToRgb s = []) = (\<forall>c \<in> set (drop 1 s). isLineTerminator c)
   \<and> (hexToRgb s = [] \<or> startsWith (hexToRgb s) ''rgb('' \<or> startsWith (hexToRgb s) ''rgba('')"
proof -
  have 1: "(hexToRgb s = []) = (\<forall>c \<in> set (drop 1 s). isLineTerminator c)"
    by (simp add: hexToRgb_Nil matchAll_Nil)
  have 2: "hexToRgb s = [] \<or> startsWith (hexToRgb s) ''rgb('' \<or> startsWith (hexToRgb s) ''rgba(''"
    using hexToRgb_shape [of s] by (auto simp: startsWith_def)
  show ?thesis using 1 2 by (rule conjI)
qed

theorem hexToRgb_empty_iff_witness:
  "hexToRgb ''#'' = [] \<and> startsWith (hexToRgb ''#1z2y3x'') ''rgb(''"
proof -
  have n: "hexToRgb ''#1z2y3x'' \<noteq> []" "\<not> startsWith (hexToRgb ''#1z2y3x'') ''rgba(''"
    by code_simp+
  show ?thesis
    using hexToRgb_empty_iff [of "''#''"] hexToRgb_empty_iff [of "''#1z2y3x''"] n by simp
qed

text \<open>A string of three characters that are no hexadecimal digits is not mapped to the empty string.\<close>

theorem hexToRgb_malformed_not_empty:
  "\<not> list_ex (isDigit 16) ''zzz'' \<and> hexToRgb ''#zzz'' = ''rgb(NaN, NaN, NaN)''"
  by code_simp

text \<open>
  C4, as the source has it: \<open>decomposeColor\<close> throws exactly when the string that reaches
  the parser of the function notation has no colour type before its first parenthesis.
  For a string that does not start with \<open>#\<close> this is the string itself; for one that does
  it is the result of \<open>hexToRgb\<close>, which lacks a colour type exactly when it is empty. An
  object is never rejected.
\<close>

theorem decomposeColor_throws_iff:
  "(\<exists>e. decomposeColor input = Inl e) =
   (\<exists>s. input = Str s \<and>
        (if charAt s 0 = ''#'' then hexToRgb s = [] else \<not> isColorType (functionName s)))"
proof (cases input)
  case (Obj c)
  then show ?thesis by simp
next
  case (Str s)
  show ?thesis
  proof (cases "charAt s 0 = ''#''")
    case True
    have "decomposeColor (Str s) = decomposeColor (Str (hexToRgb s))"
      using True by (simp add: decomposeColor.simps(2))
    then show ?thesis
      using Str True decomposeColor_function_notation [OF hexToRgb_charAt, of s]
      by (simp add: functionName_hexToRgb)
  next
    case False
    then show ?thesis
      using Str decomposeColor_function_notation [OF False] by simp
  qed
qed

theorem decomposeColor_throws_iff_witness:
  "charAt ''unsupported(1,2,3)'' 0 \<noteq> ''#'' \<and> \<not> isColorType (functionName ''unsupported(1,2,3)'')
   \<and> (\<exists>e. decomposeColor (Str ''unsupported(1,2,3)'') = Inl e)"
proof -
  have a: "charAt ''unsupported(1,2,3)'' 0 \<noteq> ''#''" by code_simp
  have b: "\<not> isColorType (functionName ''unsupported(1,2,3)'')" by code_simp
  show ?thesis
    using a b decomposeColor_throws_iff [of "Str ''unsupported(1,2,3)''"] by simp
qed

text \<open>The string \<open>#\<close> is rejected, although it starts with \<open>#\<close> and has no parenthesis.\<close>

theorem decomposeColor_rejects_hash:
  "decomposeColor (Str ''#'') = Inl (Unsupported '''')
   \<and> charAt ''#'' 0 = ''#'' \<and> indexOf ''#'' CHR ''('' = - 1"
  by code_simp

section \<open>Contrast\<close>

lemma Math_max_commute: "Math_max a b = Math_max b a"
  by (cases a; cases b) (simp_all add: Math_max_def max.commute)

lemma Math_min_commute: "Math_min a b = Math_min b a"
  by (cases a; cases b) (simp_all add: Math_min_def min.commute)

text \<open>
  C9: for two colour strings that the library accepts, \<open>getContrastRatio\<close> gives the same
  ratio in either order.
\<close>

theorem getContrastRatio_symmetric:
  assumes "getLuminance (Str a) = Inr la" and "getLuminance (Str b) = Inr lb"
  shows "getContrastRatio a b = getContrastRatio b a"
  using assms
  by (simp add: getContrastRatio_def Math_max_commute [of la lb] Math_min_commute [of la lb])

theorem getContrastRatio_symmetric_witness:
  "getLuminance (Str ''#000'') = Inr (Num 0)
   \<and> getLuminance (Str ''rgb(10, 10, 10)'') = Inr (Num 0.003)
   \<and> getContrastRatio ''#000'' ''rgb(10, 10, 10)'' = getContrastRatio ''rgb(10, 10, 10)'' ''#000''"
proof -
  have a: "getLuminance (Str ''#000'') = Inr (Num 0)" by code_simp
  have b: "getLuminance (Str ''rgb(10, 10, 10)'') = Inr (Num 0.003)" by code_simp
  show ?thesis using a b getContrastRatio_symmetric [OF a b] by simp
qed

section \<open>Setting the transparency\<close>

lemma elemAt_assign_same: "elemAt (assign None xs i (Some v)) i = Some v"
  by (simp add: elemAt_def assign_def nth_append)

lemma elemAt_assign_other: "j < i \<Longrightarrow> elemAt (assign None xs i (Some v)) j = elemAt xs j"
  by (auto simp: elemAt_def assign_def nth_append)

lemma clamp_Num: "clamp (Num v) (Num 0) (Num 1) = Num (min (max 0 v) 1)"
  by (simp add: clamp_def Math_min_def Math_max_def)

lemma assign_alpha:
  assumes "length rest \<le> 1"
  shows "assign None (Some r # Some g # Some b # rest) 3 (Some a) = [Some r, Some g, Some b, Some a]"
proof (cases rest)
  case Nil
  then show ?thesis by (simp add: assign_def)
next
  case (Cons x xs)
  then have "xs = []" using assms by simp
  then show ?thesis using Cons by (simp add: assign_def numeral_3_eq_3)
qed

lemma recomposeColor_rgba4:
  "recomposeColor \<lparr>type = ''rgba'', values = [Some r, Some g, Some b, Some al]\<rparr> =
   ''rgba('' @ numToString (parseInt (numToString r) 10) @ '', ''
     @ numToString (parseInt (numToString g) 10) @ '', ''
     @ numToString (parseInt (numToString b) 10) @ '', '' @ numToString al @ '')''"
  by (simp add: recomposeColor_def startsWith_def)

lemma recomposeColor_hsla4:
  "recomposeColor \<lparr>type = ''hsla'', values = [Some h, Some s, Some l, Some al]\<rparr> =
   ''hsla('' @ numToString h @ '', '' @ numToString s @ ''%, '' @ numToString l @ ''%, ''
     @ numToString al @ '')''"
  by (simp add: recomposeColor_def startsWith_def assign_def elemAt_def)

text \<open>
  For every colour that decomposes and every number \<open>v\<close> other than \<open>NaN\<close>, \<open>fade\<close>
  returns the recomposed colour whose type is promoted from \<open>rgb\<close> to \<open>rgba\<close> and from
  \<open>hsl\<close> to \<open>hsla\<close>, whose fourth value is \<open>v\<close> clamped to \<open>[0, 1]\<close>, whatever was
  there, and whose first three values are untouched; for a colour of three or four
  values the string is spelled out. \<open>fade("rgb(1, 2, 3)", 0.5)\<close> is
  \<open>"rgba(1, 2, 3, 0.5)"\<close>.
\<close>

theorem fade_sets_alpha:
  assumes "decomposeColor color = Inr c"
  shows "fade color (Num v) =
      Inr (recomposeColor
        \<lparr>type = (if type c = ''rgb'' then ''rgba'' else if type c = ''hsl'' then ''hsla'' else type c),
         values = assign None (values c) 3 (Some (Num (min (max 0 v) 1)))\<rparr>)
    \<and> 0 \<le> min (max 0 v) 1 \<and> min (max 0 v) 1 \<le> 1
    \<and> elemAt (assign None (values c) 3 (Some (Num (min (max 0 v) 1)))) 3 = Some (Num (min (max 0 v) 1))
    \<and> (\<forall>i<3. elemAt (assign None (values c) 3 (Some (Num (min (max 0 v) 1)))) i = elemAt (values c) i)
    \<and> (\<forall>r g b rest. values c = Some r # Some g # Some b # rest \<and> length rest \<le> 1 \<longrightarrow>
          (type c = ''rgb'' \<or> type c = ''rgba'' \<longrightarrow>
             fade color (Num v) =
               Inr (''rgba('' @ numToString (parseInt (numToString r) 10) @ '', ''
                     @ numToString (parseInt (numToString g) 10) @ '', ''
                     @ numToString (parseInt (numToString b) 10) @ '', ''
                     @ numToString (Num (min (max 0 v) 1)) @ '')''))
          \<and> (type c = ''hsl'' \<or> type c = ''hsla'' \<longrightarrow>
             fade color (Num v) =
               Inr (''hsla('' @ numToString r @ '', '' @ numToString g @ ''%, ''
                     @ numToString b @ ''%, '' @ numToString (Num (min (max 0 v) 1)) @ '')'')))
    \<and> fade (Str ''rgb(1, 2, 3)'') (Num 0.5) = Inr ''rgba(1, 2, 3, 0.5)''"
proof -
  define a where "a = min (max 0 v) 1"
  define T where "T = (if type c = ''rgb'' then ''rgba'' else if type c = ''hsl'' then ''hsla'' else type c)"
  have f: "faded c (Num v) = \<lparr>type = T, values = assign None (values c) 3 (Some (Num a))\<rparr>"
    by (simp add: faded_def Let_def clamp_Num a_def T_def)
  have 1: "fade color (Num v) = Inr (recomposeColor \<lparr>type = T, values = assign None (values c) 3 (Some (Num a))\<rparr>)"
    using assms by (simp add: fade_def f)
  have 2: "0 \<le> a" "a \<le> 1" by (simp_all add: a_def)
  have 3: "elemAt (assign None (values c) 3 (Some (Num a))) 3 = Some (Num a)"
    by (rule elemAt_assign_same)
  have 4: "\<forall>i<3. elemAt (assign None (values c) 3 (Some (Num a))) i = elemAt (values c) i"
    by (simp add: elemAt_assign_other)
  have 5: "fade color (Num v) =
               Inr (''rgba('' @ numToString (parseInt (numToString r) 10) @ '', ''
                     @ numToString (parseInt (numToString g) 10) @ '', ''
                     @ numToString (parseInt (numToString b) 10) @ '', ''
                     @ numToString (Num a) @ '')'')"
    if "values c = Some r # Some g # Some b # rest" "length rest \<le> 1" "type c = ''rgb'' \<or> type c = ''rgba''"
    for r g b rest
  proof -
    have "T = ''rgba''" using that(3) by (auto simp: T_def)
    then show ?thesis
      unfolding 1 that(1) assign_alpha [OF that(2)] by (simp only: recomposeColor_rgba4)
  qed
  have 6: "fade color (Num v) =
               Inr (''hsla('' @ numToString r @ '', '' @ numToString g @ ''%, ''
                     @ numToString b @ ''%, '' @ numToString (Num a) @ '')'')"
    if "values c = Some r # Some g # Some b # rest" "length rest \<le> 1" "type c = ''hsl'' \<or> type c = ''hsla''"
    for r g b rest
  proof -
    have "T = ''hsla''" using that(3) by (auto simp: T_def)
    then show ?thesis
      unfolding 1 that(1) assign_alpha [OF that(2)] by (simp only: recomposeColor_hsla4)
  qed
  have 7: "fade (Str ''rgb(1, 2, 3)'') (Num 0.5) = Inr ''rgba(1, 2, 3, 0.5)''"
    by code_simp
  show ?thesis
    unfolding a_def [symmetric] T_def [symmetric]
    using 1 2 3 4 5 6 7 by blast
qed

theorem fade_sets_alpha_witness:
  "fade (Str ''hsl(120, 50%, 25%)'') (Num 7) = Inr ''hsla(120, 50%, 25%, 1)''
   \<and> fade (Str ''rgba(1, 2, 3, 0.5)'') (Num (- 2)) = Inr ''rgba(1, 2, 3, 0)''"
proof -
  have d: "decomposeColor (Str ''hsl(120, 50%, 25%)'')
     = Inr \<lparr>type = ''hsl'', values = [Some (Num 120), Some (Num 50), Some (Num 25)]\<rparr>"
    by code_simp
  have e: "decomposeColor (Str ''rgba(1, 2, 3, 0.5)'')
     = Inr \<lparr>type = ''rgba'', values = [Some (Num 1), Some (Num 2), Some (Num 3), Some (Num 0.5)]\<rparr>"
    by code_simp
  have s: "recomposeColor \<lparr>type = ''hsla'',
      values = assign None [Some (Num 120), Some (Num 50), Some (Num 25)] 3 (Some (Num 1))\<rparr>
      = ''hsla(120, 50%, 25%, 1)''"
    by code_simp
  have t: "recomposeColor \<lparr>type = ''rgba'',
      values = assign None [Some (Num 1), Some (Num 2), Some (Num 3), Some (Num (1 / 2))] 3 (Some (Num 0))\<rparr>
      = ''rgba(1, 2, 3, 0)''"
    by code_simp
  have 1: "fade (Str ''hsl(120, 50%, 25%)'') (Num 7) = Inr ''hsla(120, 50%, 25%, 1)''"
    using fade_sets_alpha [OF d, of 7] by (simp add: s del: numToString.simps)
  have 2: "fade (Str ''rgba(1, 2, 3, 0.5)'') (Num (- 2)) = Inr ''rgba(1, 2, 3, 0)''"
    using fade_sets_alpha [OF e, of "- 2"] by (simp add: t del: numToString.simps)
  show ?thesis using 1 2 by simp
qed

text \<open>
  C8 fails in the source at the number \<open>NaN\<close>: \<open>clamp\<close> is documented to return a number
  in the range \<open>[min, max]\<close>, but \<open>Math.max(0, NaN)\<close> and \<open>Math.min(NaN, 1)\<close> are
  \<open>NaN\<close>, so the value is not clamped and \<open>fade\<close> makes it the fourth value as it is:
  \<open>fade("rgb(1, 2, 3)", NaN)\<close> is \<open>"rgba(1, 2, 3, NaN)"\<close>.
\<close>

theorem fade_keeps_NaN:
  "clamp NaN (Num 0) (Num 1) = NaN
   \<and> fade (Str ''rgb(1, 2, 3)'') NaN = Inr ''rgba(1, 2, 3, NaN)''"
  by code_simp

section \<open>From HSL to RGB\<close>

lemma join4: "join sep [a, b, c, d] = a @ sep @ b @ sep @ c @ sep @ d"
  by simp

lemma enumerate4: "enumerate 0 [a, b, c, d] = [(0, a), (1, b), (2, c), (3, d)]"
  by (simp add: enumerate_eq_zip upt_rec numeral_eq_Suc)

lemma truthy_Some: "truthy e \<Longrightarrow> \<exists>x. e = Some (Num x) \<and> x \<noteq> 0"
  by (cases e rule: truthy.cases) simp_all

text \<open>
  C7: \<open>hslToRgb\<close> recomposes a colour of type \<open>rgba\<close> with four values, the fourth being
  the alpha value of the source as it is, when the source has type \<open>hsla\<close> and a truthy
  alpha value; in every other case it recomposes a colour of type \<open>rgb\<close> with three
  values.
\<close>

theorem hslToRgb_alpha:
  assumes "decomposeColor color = Inr c"
  shows "hslToRgb color = Inr (recomposeColor (hslToRgbObject c))
    \<and> (type c = ''hsla'' \<and> truthy (elemAt (values c) 3) \<longrightarrow>
         type (hslToRgbObject c) = ''rgba''
         \<and> length (values (hslToRgbObject c)) = 4
         \<and> elemAt (values (hslToRgbObject c)) 3 = elemAt (values c) 3
         \<and> (\<exists>rgb. recomposeColor (hslToRgbObject c) =
               ''rgba('' @ rgb @ '', '' @ joined (elemAt (values c) 3) @ '')''))
    \<and> (\<not> (type c = ''hsla'' \<and> truthy (elemAt (values c) 3)) \<longrightarrow>
         type (hslToRgbObject c) = ''rgb''
         \<and> length (values (hslToRgbObject c)) = 3
         \<and> startsWith (recomposeColor (hslToRgbObject c)) ''rgb('')"
proof -
  have 1: "hslToRgb color = Inr (recomposeColor (hslToRgbObject c))"
    using assms by (simp add: hslToRgb_def)
  have 2: "type (hslToRgbObject c) = ''rgba''
         \<and> length (values (hslToRgbObject c)) = 4
         \<and> elemAt (values (hslToRgbObject c)) 3 = elemAt (values c) 3
         \<and> (\<exists>rgb. recomposeColor (hslToRgbObject c) =
               ''rgba('' @ rgb @ '', '' @ joined (elemAt (values c) 3) @ '')'')"
    if t: "type c = ''hsla'' \<and> truthy (elemAt (values c) 3)"
  proof -
    obtain x where x: "elemAt (values c) 3 = Some (Num x)"
      using t truthy_Some by blast
    obtain r g b where o: "hslToRgbObject c = \<lparr>type = ''rgba'', values = [Some r, Some g, Some b, Some (Num x)]\<rparr>"
      using t x by (simp add: hslToRgbObject_def Let_def)
    show ?thesis
      unfolding o recomposeColor_rgba4 using x by (simp add: elemAt_def)
  qed
  have 3: "type (hslToRgbObject c) = ''rgb''
         \<and> length (values (hslToRgbObject c)) = 3
         \<and> startsWith (recomposeColor (hslToRgbObject c)) ''rgb(''"
    if t: "\<not> (type c = ''hsla'' \<and> truthy (elemAt (values c) 3))"
  proof -
    have o: "type (hslToRgbObject c) = ''rgb'' \<and> length (values (hslToRgbObject c)) = 3"
      using t by (auto simp: hslToRgbObject_def Let_def)
    then show ?thesis by (simp add: recomposeColor_def startsWith_def Let_def)
  qed
  show ?thesis using 1 2 3 by blast
qed

theorem hslToRgb_alpha_witness:
  "decomposeColor (Str ''hsla(120, 100%, 50%, 0.5)'')
      = Inr \<lparr>type = ''hsla'', values = [Some (Num 120), Some (Num 100), Some (Num 50), Some (Num 0.5)]\<rparr>
   \<and> hslToRgb (Str ''hsla(120, 100%, 50%, 0.5)'') = Inr ''rgba(0, 255, 0, 0.5)''
   \<and> type (hslToRgbObject \<lparr>type = ''hsla'', values = [Some (Num 120), Some (Num 100), Some (Num 50), Some (Num 0.5)]\<rparr>) = ''rgba''
   \<and> elemAt (values (hslToRgbObject \<lparr>type = ''hsla'', values = [Some (Num 120), Some (Num 100), Some (Num 50), Some (Num 0.5)]\<rparr>)) 3 = Some (Num 0.5)"
proof -
  have d: "decomposeColor (Str ''hsla(120, 100%, 50%, 0.5)'')
      = Inr \<lparr>type = ''hsla'', values = [Some (Num 120), Some (Num 100), Some (Num 50), Some (Num 0.5)]\<rparr>"
    by code_simp
  have s: "hslToRgb (Str ''hsla(120, 100%, 50%, 0.5)'') = Inr ''rgba(0, 255, 0, 0.5)''"
    by code_simp
  have t: "truthy (elemAt [Some (Num 120), Some (Num 100), Some (Num 50), Some (Num 0.5)] 3)"
    by code_simp
  have e: "elemAt [Some (Num 120), Some (Num 100), Some (Num 50), Some (Num 0.5)] 3 = Some (Num 0.5)"
    by code_simp
  show ?thesis using d s t e hslToRgb_alpha [OF d] by simp
qed

lemma channel_bounds:
  fixes s l m :: real
  assumes "0 \<le> s" "s \<le> 1" "0 \<le> l" "l \<le> 1" "- 1 \<le> m" "m \<le> 1"
  shows "0 \<le> l - s * min l (1 - l) * m" and "l - s * min l (1 - l) * m \<le> 1"
proof -
  define a where "a = s * min l (1 - l)"
  have a0: "0 \<le> a" using assms by (simp add: a_def)
  have "a \<le> 1 * min l (1 - l)"
    unfolding a_def using assms by (intro mult_right_mono) auto
  then have al: "a \<le> l" and al': "a \<le> 1 - l" by auto
  have "a * m \<le> a * 1" using a0 assms by (intro mult_left_mono) auto
  moreover have "a * (- 1) \<le> a * m" using a0 assms by (intro mult_left_mono) auto
  ultimately have "- a \<le> a * m" "a * m \<le> a" by auto
  then show "0 \<le> l - s * min l (1 - l) * m" and "l - s * min l (1 - l) * m \<le> 1"
    using al al' by (auto simp: a_def)
qed

lemma round_byte:
  fixes x :: real
  assumes "0 \<le> x" "x \<le> 1"
  shows "0 \<le> \<lfloor>x * 255 + 1 / 2\<rfloor>" and "\<lfloor>x * 255 + 1 / 2\<rfloor> \<le> 255"
proof -
  show "0 \<le> \<lfloor>x * 255 + 1 / 2\<rfloor>" using assms by simp
  have "x * 255 + 1 / 2 < 256" using assms by simp
  then have "\<lfloor>x * 255 + 1 / 2\<rfloor> < 256" by (simp add: floor_less_iff)
  then show "\<lfloor>x * 255 + 1 / 2\<rfloor> \<le> 255" by simp
qed

lemma hsl_channel:
  assumes "0 \<le> s" "s \<le> 100" "0 \<le> l" "l \<le> 100"
  shows "\<exists>v::int. 0 \<le> v \<and> v \<le> 255 \<and>
    Math_round (mul
      (sub (divide_num (Num l) (Num 100))
        (mul (mul (divide_num (Num s) (Num 100))
                  (Math_min (divide_num (Num l) (Num 100))
                            (sub (Num 1) (divide_num (Num l) (Num 100)))))
             (Math_max (Math_min (Math_min (sub (Num k) (Num 3)) (sub (Num 9) (Num k))) (Num 1))
                       (Num (- 1)))))
      (Num 255)) = Num (of_int v)"
proof -
  define m where "m = max (min (min (k - 3) (9 - k)) 1) (- 1)"
  define x where "x = l / 100 - s / 100 * min (l / 100) (1 - l / 100) * m"
  have m: "- 1 \<le> m" "m \<le> 1" by (auto simp: m_def)
  have sl: "0 \<le> s / 100" "s / 100 \<le> 1" "0 \<le> l / 100" "l / 100 \<le> 1"
    using assms by simp_all
  have x: "0 \<le> x" "x \<le> 1"
    unfolding x_def by (rule channel_bounds [OF sl m])+
  have "Math_round (mul
      (sub (divide_num (Num l) (Num 100))
        (mul (mul (divide_num (Num s) (Num 100))
                  (Math_min (divide_num (Num l) (Num 100))
                            (sub (Num 1) (divide_num (Num l) (Num 100)))))
             (Math_max (Math_min (Math_min (sub (Num k) (Num 3)) (sub (Num 9) (Num k))) (Num 1))
                       (Num (- 1)))))
      (Num 255)) = Num (of_int \<lfloor>x * 255 + 1 / 2\<rfloor>)"
    by (simp add: x_def m_def sub_def mul_def Math_min_def Math_max_def)
  then show ?thesis using round_byte [OF x] by blast
qed

lemma hue_sector: "\<exists>k. rem (add (Num n) (divide_num (Num h) (Num 30))) (Num 12) = Num k"
  by (simp add: add_def)

text \<open>
  C10: for a colour whose first three values are a hue (any number), a saturation and a
  lightness, both between 0 and 100, each of the three channels that \<open>hslToRgb\<close> computes
  is an integer between 0 and 255.
\<close>

theorem hslToRgb_channels:
  assumes "decomposeColor color = Inr c"
    and "values c = Some (Num h) # Some (Num s) # Some (Num l) # rest"
    and "0 \<le> s" "s \<le> 100" "0 \<le> l" "l \<le> 100"
  shows "hslToRgb color = Inr (recomposeColor (hslToRgbObject c))
    \<and> (\<exists>r g b :: int.
          take 3 (values (hslToRgbObject c)) =
            [Some (Num (of_int r)), Some (Num (of_int g)), Some (Num (of_int b))]
          \<and> 0 \<le> r \<and> r \<le> 255 \<and> 0 \<le> g \<and> g \<le> 255 \<and> 0 \<le> b \<and> b \<le> 255)"
proof -
  have e: "toNumber (elemAt (values c) 0) = Num h" "toNumber (elemAt (values c) 1) = Num s"
    "toNumber (elemAt (values c) 2) = Num l"
    using assms(2) by (simp_all add: elemAt_def)
  obtain k0 k8 k4 where k:
    "rem (add (Num 0) (divide_num (Num h) (Num 30))) (Num 12) = Num k0"
    "rem (add (Num 8) (divide_num (Num h) (Num 30))) (Num 12) = Num k8"
    "rem (add (Num 4) (divide_num (Num h) (Num 30))) (Num 12) = Num k4"
    using hue_sector by metis
  note ch = hsl_channel [OF assms(3-6)]
  obtain r :: int where r: "0 \<le> r" "r \<le> 255" and r': "Math_round (mul
      (sub (divide_num (Num l) (Num 100))
        (mul (mul (divide_num (Num s) (Num 100))
                  (Math_min (divide_num (Num l) (Num 100))
                            (sub (Num 1) (divide_num (Num l) (Num 100)))))
             (Math_max (Math_min (Math_min (sub (Num k0) (Num 3)) (sub (Num 9) (Num k0))) (Num 1))
                       (Num (- 1)))))
      (Num 255)) = Num (of_int r)"
    using ch [of k0] by blast
  obtain g :: int where g: "0 \<le> g" "g \<le> 255" and g': "Math_round (mul
      (sub (divide_num (Num l) (Num 100))
        (mul (mul (divide_num (Num s) (Num 100))
                  (Math_min (divide_num (Num l) (Num 100))
                            (sub (Num 1) (divide_num (Num l) (Num 100)))))
             (Math_max (Math_min (Math_min (sub (Num k8) (Num 3)) (sub (Num 9) (Num k8))) (Num 1))
                       (Num (- 1)))))
      (Num 255)) = Num (of_int g)"
    using ch [of k8] by blast
  obtain b :: int where b: "0 \<le> b" "b \<le> 255" and b': "Math_round (mul
      (sub (divide_num (Num l) (Num 100))
        (mul (mul (divide_num (Num s) (Num 100))
                  (Math_min (divide_num (Num l) (Num 100))
                            (sub (Num 1) (divide_num (Num l) (Num 100)))))
             (Math_max (Math_min (Math_min (sub (Num k4) (Num 3)) (sub (Num 9) (Num k4))) (Num 1))
                       (Num (- 1)))))
      (Num 255)) = Num (of_int b)"
    using ch [of k4] by blast
  have "take 3 (values (hslToRgbObject c)) =
      [Some (Num (of_int r)), Some (Num (of_int g)), Some (Num (of_int b))]"
    unfolding hslToRgbObject_def Let_def e k r' g' b' by simp
  moreover have "hslToRgb color = Inr (recomposeColor (hslToRgbObject c))"
    using assms(1) by (simp add: hslToRgb_def)
  ultimately show ?thesis using r g b by blast
qed

theorem hslToRgb_channels_witness:
  "decomposeColor (Str ''hsl(210, 50%, 40%)'')
     = Inr \<lparr>type = ''hsl'', values = [Some (Num 210), Some (Num 50), Some (Num 40)]\<rparr>
   \<and> hslToRgb (Str ''hsl(210, 50%, 40%)'') = Inr ''rgb(51, 102, 153)''
   \<and> (\<exists>r g b :: int.
          take 3 (values (hslToRgbObject \<lparr>type = ''hsl'', values = [Some (Num 210), Some (Num 50), Some (Num 40)]\<rparr>)) =
            [Some (Num (of_int r)), Some (Num (of_int g)), Some (Num (of_int b))]
          \<and> 0 \<le> r \<and> r \<le> 255 \<and> 0 \<le> g \<and> g \<le> 255 \<and> 0 \<le> b \<and> b \<le> 255)"
proof -
  have d: "decomposeColor (Str ''hsl(210, 50%, 40%)'')
     = Inr \<lparr>type = ''hsl'', values = [Some (Num 210), Some (Num 50), Some (Num 40)]\<rparr>"
    by code_simp
  have s: "hslToRgb (Str ''hsl(210, 50%, 40%)'') = Inr ''rgb(51, 102, 153)''"
    by code_simp
  show ?thesis
    using d s hslToRgb_channels [OF d, of 210 50 40 "[]"] by simp
qed

section \<open>Luminance\<close>

lemma getLuminance_not_hsl:
  assumes "decomposeColor color = Inr c" and "type c \<noteq> ''hsl''"
    and "values c = Some r # Some g # Some b # rest"
  shows "getLuminance color =
    Inr (toFixed3 (add (add (mul (Num 0.2126) (linearized r))
                            (mul (Num 0.7152) (linearized g)))
                       (mul (Num 0.0722) (linearized b))))"
  using assms by (simp add: getLuminance_def elemAt_def)

lemma linearized_0: "linearized (Num 0) = Num 0"
  by simp

lemma linearized_255: "linearized (Num 255) = Num 1"
  by simp

lemma powr_12_5:
  fixes b :: real
  assumes "0 < b"
  shows "(b powr 2.4) ^ 5 = b ^ 12"
proof -
  have "(b powr 2.4) ^ 5 = (b powr 2.4) powr 5"
    by (simp only: powr_numeral powr_ge_zero)
  also have "\<dots> = b powr (2.4 * 5)"
    by (simp only: powr_powr)
  also have "(2.4 * 5 :: real) = 12"
    by simp
  also have "b powr 12 = b ^ 12"
    using assms by (simp only: powr_numeral less_imp_le)
  finally show ?thesis .
qed

lemma powr_12_5_bounds:
  fixes b :: real
  assumes "0 < b" and "lo ^ 5 \<le> b ^ 12" and "b ^ 12 < hi ^ 5" and "0 \<le> hi"
  shows "lo \<le> b powr 2.4 \<and> b powr 2.4 < hi"
proof -
  note e = powr_12_5 [OF assms(1)]
  have l: "lo ^ 5 \<le> (b powr 2.4) ^ 5" using assms(2) by (simp only: e)
  have 1: "lo \<le> b powr 2.4"
  proof (rule ccontr)
    assume "\<not> lo \<le> b powr 2.4"
    then have "b powr 2.4 < lo" by simp
    then have "(b powr 2.4) ^ 5 < lo ^ 5"
      by (rule power_strict_mono) simp_all
    with l show False by simp
  qed
  have "(b powr 2.4) ^ 5 < hi ^ 5" using assms(3) by (simp only: e)
  then have 2: "b powr 2.4 < hi"
    by (rule power_less_imp_less_base) (rule assms(4))
  show ?thesis using 1 2 by (rule conjI)
qed

lemma linearized_100:
  "\<exists>p. linearized (Num 100) = Num p \<and> 0.118 \<le> p \<and> p < 0.131"
proof -
  have "0.118 \<le> ((100 / 255 + 0.055) / 1.055::real) powr 2.4 \<and>
        ((100 / 255 + 0.055) / 1.055::real) powr 2.4 < 0.131"
    by (rule powr_12_5_bounds)
       (simp_all add: power_divide divide_le_eq le_divide_eq divide_less_eq less_divide_eq)
  then show ?thesis by (simp add: Let_def)
qed

lemma toFixed3_009: 
  assumes "0.118 \<le> p" "p < 0.131"
  shows "toFixed3 (Num (0.0722 * p)) = Num 0.009"
proof -
  have a: "0 < 0.0722 * p" "\<bar>0.0722 * p\<bar> = 0.0722 * p" using assms by simp_all
  have "9 \<le> 0.0722 * p * 1000 + 1 / 2" "0.0722 * p * 1000 + 1 / 2 < 10"
    using assms by simp_all
  then have f: "\<lfloor>\<bar>0.0722 * p\<bar> * 1000 + 1 / 2\<rfloor> = 9"
    unfolding a(2) by (simp add: floor_eq_iff)
  have s: "sgn (0.0722 * p) = 1" using a(1) by (simp only: sgn_pos)
  have b: "\<not> 10 ^ 21 \<le> \<bar>0.0722 * p\<bar>" unfolding a(2) using assms by simp
  show ?thesis
    unfolding toFixed3.simps f s using b by simp
qed

lemma getLuminance_hsla_as_rgba:
  "getLuminance (Obj \<lparr>type = ''hsla'', values = vs\<rparr>) =
   getLuminance (Obj \<lparr>type = ''rgba'', values = vs\<rparr>)"
  by (simp add: getLuminance_def)

text \<open>
  C1 fails in the source: only the type \<open>hsl\<close> is converted, and the values of a colour of
  type \<open>hsla\<close> are taken for red, green and blue. For the white \<open>hsla(0, 0%, 100%, 1)\<close>,
  \<open>hslToRgb\<close> gives \<open>rgba(255, 255, 255, 1)\<close>, whose luminance is 1, but \<open>getLuminance\<close>
  returns 0.009.
\<close>

theorem getLuminance_hsla_white:
  "hslToRgb (Str ''hsla(0, 0%, 100%, 1)'') = Inr ''rgba(255, 255, 255, 1)''
   \<and> getLuminance (Str ''rgba(255, 255, 255, 1)'') = Inr (Num 1)
   \<and> getLuminance (Str ''hsla(0, 0%, 100%, 1)'') = Inr (Num 0.009)"
proof -
  have 1: "hslToRgb (Str ''hsla(0, 0%, 100%, 1)'') = Inr ''rgba(255, 255, 255, 1)''"
    by code_simp
  have d2: "decomposeColor (Str ''rgba(255, 255, 255, 1)'') =
      Inr \<lparr>type = ''rgba'', values = [Some (Num 255), Some (Num 255), Some (Num 255), Some (Num 1)]\<rparr>"
    by code_simp
  have t1: "toFixed3 (Num 1) = Num 1" by simp
  have 2: "getLuminance (Str ''rgba(255, 255, 255, 1)'') = Inr (Num 1)"
    unfolding getLuminance_not_hsl [OF d2, of "Num 255" "Num 255" "Num 255" "[Some (Num 1)]", simplified]
    by (simp add: add_def mul_def)
  have d3: "decomposeColor (Str ''hsla(0, 0%, 100%, 1)'') =
      Inr \<lparr>type = ''hsla'', values = [Some (Num 0), Some (Num 0), Some (Num 100), Some (Num 1)]\<rparr>"
    by code_simp
  obtain p where p: "linearized (Num 100) = Num p" "0.118 \<le> p" "p < 0.131"
    using linearized_100 by blast
  have s: "add (add (mul (Num 0.2126) (Num 0)) (mul (Num 0.7152) (Num 0))) (mul (Num 0.0722) (Num p))
    = Num (0.0722 * p)"
    by (simp add: add_def mul_def)
  have g: "getLuminance (Str ''hsla(0, 0%, 100%, 1)'') =
    Inr (toFixed3 (add (add (mul (Num 0.2126) (linearized (Num 0)))
                            (mul (Num 0.7152) (linearized (Num 0))))
                       (mul (Num 0.0722) (linearized (Num 100)))))"
    by (rule getLuminance_not_hsl [OF d3]) simp_all
  have 3: "getLuminance (Str ''hsla(0, 0%, 100%, 1)'') = Inr (Num 0.009)"
    unfolding g linearized_0 p(1) s toFixed3_009 [OF p(2,3)] by (rule refl)
  show ?thesis using 1 2 3 by simp
qed

section \<open>Digits, printing and reading numbers\<close>

lemma digitVal_digitChar: "d < 16 \<Longrightarrow> digitVal (digitChar d) = Some d"
  by (auto simp: digitVal_def digitChar_def Let_def)

lemma isDigit_digitChar: "d < r \<Longrightarrow> r \<le> 16 \<Longrightarrow> isDigit r (digitChar d)"
  by (simp add: isDigit_def digitVal_digitChar)

lemma isDigit10_iff: "isDigit 10 c = (48 \<le> (of_char c :: nat) \<and> (of_char c :: nat) \<le> 57)"
  by (auto simp: isDigit_def digitVal_def Let_def)

lemma digitsVal_snoc: "digitsVal r (ds @ [c]) = digitsVal r ds * r + the (digitVal c)"
  by (simp add: digitsVal_def)

lemma showNat_digits: "2 \<le> r \<Longrightarrow> r \<le> 16 \<Longrightarrow> c \<in> set (showNat r n) \<Longrightarrow> isDigit r c"
proof (induction r n rule: showNat.induct)
  case (1 r n)
  show ?case
  proof (cases "n < r")
    case True
    then show ?thesis using 1 by (simp add: showNat.simps [of r n] isDigit_digitChar)
  next
    case False
    have m: "n mod r < r"
      using mod_less_divisor [of r n] 1(2) by linarith
    show ?thesis
      using False 1 m by (auto simp: showNat.simps [of r n] isDigit_digitChar)
  qed
qed

lemma showNat_nonempty: "showNat r n \<noteq> []"
  by (simp add: showNat.simps [of r n])

lemma digitsVal_showNat: "2 \<le> r \<Longrightarrow> r \<le> 16 \<Longrightarrow> digitsVal r (showNat r n) = n"
proof (induction r n rule: showNat.induct)
  case (1 r n)
  show ?case
  proof (cases "n < r")
    case True
    then show ?thesis
      using 1 by (simp add: showNat.simps [of r n] digitsVal_def digitVal_digitChar)
  next
    case False
    have m: "n mod r < 16"
      using mod_less_divisor [of r n] 1(2,3) by linarith
    show ?thesis
      using False 1 by (simp add: showNat.simps [of r n] digitsVal_snoc digitVal_digitChar [OF m])
  qed
qed

lemma takeWhile_run:
  "\<forall>x \<in> set xs. P x \<Longrightarrow> ys = [] \<or> \<not> P (hd ys) \<Longrightarrow> takeWhile P (xs @ ys) = xs"
  by (cases ys) (simp_all add: takeWhile_append2 [where ys = "_ # _"])

lemma dropWhile_run:
  "\<forall>x \<in> set xs. P x \<Longrightarrow> ys = [] \<or> \<not> P (hd ys) \<Longrightarrow> dropWhile P (xs @ ys) = ys"
  by (cases ys) (simp_all add: dropWhile_append2)

lemma split_no_sep: "c \<notin> set s \<Longrightarrow> split c s = [s]"
  by (induction s) auto

lemma split_append: "c \<notin> set s \<Longrightarrow> split c (s @ c # rest) = s # split c rest"
  by (induction s) auto

lemma split_join:
  "entries \<noteq> [] \<Longrightarrow> \<forall>e \<in> set entries. CHR '','' \<notin> set e \<Longrightarrow>
   split CHR '','' (join '', '' entries) = hd entries # map ((#) CHR '' '') (tl entries)"
proof (induction "'', ''" entries rule: join.induct)
  case 1
  then show ?case by simp
next
  case (2 x)
  then show ?case by (simp add: split_no_sep)
next
  case (3 x y ys)
  have "split CHR '','' (x @ CHR '','' # CHR '' '' # join '', '' (y # ys)) =
        x # split CHR '','' (CHR '' '' # join '', '' (y # ys))"
    using 3(3) by (intro split_append) simp
  moreover have "split CHR '','' (join '', '' (y # ys)) = y # map ((#) CHR '' '') ys"
    using 3 by simp
  ultimately show ?case by simp
qed

lemma parseFloat_space: "parseFloat (CHR '' '' # s) = parseFloat s"
  by (simp add: parseFloat_def isWhiteSpace_def)

lemma isColorType_cases:
  "isColorType t = (t = ''rgb'' \<or> t = ''rgba'' \<or> t = ''hsl'' \<or> t = ''hsla'')"
  by (auto simp: isColorType_def)

lemma takeWhile_neq: "c \<notin> set t \<Longrightarrow> takeWhile (\<lambda>x. x \<noteq> c) (t @ c # rest) = t"
  by (induction t) auto

lemma indexOf_append: "c \<notin> set t \<Longrightarrow> indexOf (t @ c # rest) c = int (length t)"
  by (simp add: indexOf_def takeWhile_neq)

lemma substring_prefix: "substring (xs @ ys) 0 (int (length xs)) = xs"
  by (simp add: substring_def)

lemma substring_middle:
  "substring (xs @ ys @ [z]) (int (length xs)) (int (length (xs @ ys @ [z])) - 1) = ys"
proof -
  have b: "int (length (xs @ ys @ [z])) - 1 = int (length xs + length ys)" by simp
  have m: "min (max (int (length xs)) 0) (int (length (xs @ ys @ [z]))) = int (length xs)"
    "min (max (int (length xs + length ys)) 0) (int (length (xs @ ys @ [z]))) = int (length xs + length ys)"
    by simp_all
  have n: "nat (min (int (length xs)) (int (length xs + length ys))) = length xs"
    "nat (max (int (length xs)) (int (length xs + length ys))) = length xs + length ys"
    by simp_all
  show ?thesis
    unfolding substring_def Let_def b m n by simp
qed

lemma decomposeColor_function:
  assumes "isColorType t"
  shows "decomposeColor (Str (t @ ''('' @ body @ '')'')) =
         Inr \<lparr>type = t, values = map (\<lambda>value. Some (parseFloat value)) (split CHR '','' body)\<rparr>"
proof -
  have t: "CHR ''('' \<notin> set t" "charAt (t @ ''('' @ body @ '')'') 0 \<noteq> ''#''"
    using assms by (auto simp: isColorType_cases charAt_def)
  have i: "indexOf (t @ ''('' @ body @ '')'') CHR ''('' = int (length t)"
    using indexOf_append [OF t(1)] by simp
  have s1: "substring (t @ ''('' @ body @ '')'') 0 (int (length t)) = t"
    by (rule substring_prefix)
  have "substring ((t @ ''('') @ body @ '')'') (int (length (t @ ''('')))
              (int (length ((t @ ''('') @ body @ '')'')) - 1) = body"
    by (rule substring_middle)
  then have s2: "substring (t @ ''('' @ body @ '')'') (int (length t) + 1)
              (int (length (t @ ''('' @ body @ '')'')) - 1) = body"
    by (simp add: add.commute)
  show ?thesis
    apply (subst decomposeColor.simps(2))
    apply (simp only: t(2) if_False Let_def i s1 s2)
    apply (simp add: assms)
    done
qed

lemma decomposeColor_join:
  assumes "isColorType t" and "entries \<noteq> []" and "\<forall>e \<in> set entries. CHR '','' \<notin> set e"
  shows "decomposeColor (Str (t @ ''('' @ join '', '' entries @ '')'')) =
         Inr \<lparr>type = t, values = map (\<lambda>e. Some (parseFloat e)) entries\<rparr>"
proof -
  have "map (\<lambda>value. Some (parseFloat value)) (hd entries # map ((#) CHR '' '') (tl entries))
      = map (\<lambda>e. Some (parseFloat e)) (hd entries # tl entries)"
    by (simp add: parseFloat_space comp_def)
  also have "hd entries # tl entries = entries"
    using assms(2) by simp
  finally show ?thesis
    unfolding decomposeColor_function [OF assms(1)] split_join [OF assms(2,3)] by simp
qed

subsection \<open>Rounding to a double\<close>

lemma roundHalfEven_int: "roundHalfEven (of_int z) = z"
  by (simp add: roundHalfEven_def)

lemma pow2_pos: "0 < pow2 p"
  by (simp add: pow2_def)

lemma pow2_nonpos: "p \<le> 0 \<Longrightarrow> pow2 p = 1 / 2 ^ nat (- p)"
  by (auto simp: pow2_def)

lemma pow2_scaled: "- int K \<le> p \<Longrightarrow> pow2 p * 2 ^ K = 2 ^ nat (p + int K)"
proof (cases "0 \<le> p")
  case True
  then have "nat (p + int K) = nat p + K" by simp
  then show ?thesis using True by (simp add: pow2_def power_add)
next
  case False
  assume a: "- int K \<le> p"
  have "K = nat (p + int K) + nat (- p)" using False a by simp
  then have "(2::real) ^ K = 2 ^ nat (p + int K) * 2 ^ nat (- p)"
    by (metis power_add)
  then show ?thesis using False by (simp add: pow2_def)
qed

lemma binaryExponentUp_le: "binaryExponentUp k v \<le> k"
  by (induction k arbitrary: v) simp_all

lemma binaryExponentDown_le: "1 \<le> v \<Longrightarrow> 2 ^ binaryExponentDown k v \<le> v"
proof (induction k arbitrary: v)
  case 0
  then show ?case by simp
next
  case (Suc k)
  show ?case
  proof (cases "v < 2")
    case True
    then show ?thesis using Suc.prems by simp
  next
    case False
    then have "1 \<le> v / 2" by simp
    then have "2 ^ binaryExponentDown k (v / 2) \<le> v / 2" by (rule Suc.IH)
    then show ?thesis using False by simp
  qed
qed

lemma binaryExponent_ge: "- int K \<le> - 1022 \<Longrightarrow> - int K - 52 \<le> binaryExponent v - 52"
proof -
  assume a: "- int K \<le> - 1022"
  have "int (binaryExponentUp 1022 v) \<le> 1022"
    using binaryExponentUp_le [of 1022 v] by simp
  then have "- 1022 \<le> binaryExponent v" by (simp add: binaryExponent_def)
  then show ?thesis using a by simp
qed

text \<open>Every value of \<open>toDouble\<close> is a multiple of \<open>2^-1074\<close>, hence of \<open>10^-1074\<close>.\<close>

lemma toDoublePos_grid:
  assumes "K = 1074"
  shows "toDoublePos v * 2 ^ K \<in> \<int>"
proof -
  define p where "p = binaryExponent v - 52"
  have "- int K \<le> p"
    unfolding p_def using binaryExponent_ge [of 1022 v] assms by simp
  then have s: "pow2 p * 2 ^ K = 2 ^ nat (p + int K)" by (rule pow2_scaled)
  have "toDoublePos v * 2 ^ K = of_int (roundHalfEven (v / pow2 p)) * (pow2 p * 2 ^ K)"
    by (simp add: toDoublePos_def Let_def p_def)
  also have "\<dots> = of_int (roundHalfEven (v / pow2 p) * 2 ^ nat (p + int K))"
    unfolding s by simp
  finally show ?thesis by (simp only: Ints_of_int)
qed

lemma toDouble_grid2:
  assumes "K = 1074"
  shows "toDouble v * 2 ^ K \<in> \<int>"
proof -
  have "toDouble v = 0 \<or> toDouble v = - toDoublePos (- v) \<or> toDouble v = toDoublePos v"
    by (simp add: toDouble_def)
  then show ?thesis
    using toDoublePos_grid [OF assms, of v] toDoublePos_grid [OF assms, of "- v"]
    by (auto simp: Ints_minus)
qed

lemma toDouble_grid10:
  assumes "K = 1074"
  shows "toDouble v * 10 ^ K \<in> \<int>"
proof -
  have "(10::real) ^ K = 2 ^ K * of_int (5 ^ K)"
    by (simp flip: power_mult_distrib)
  then have "toDouble v * 10 ^ K = toDouble v * 2 ^ K * of_int (5 ^ K)"
    by (simp only: mult.assoc)
  then show ?thesis
    using toDouble_grid2 [OF assms, of v] by (simp only: Ints_mult Ints_of_int)
qed

text \<open>A natural number below \<open>2^53\<close> is a double.\<close>

lemma toDouble_nat:
  assumes "n < 2 ^ 53"
  shows "toDouble (real n) = real n"
proof (cases "n = 0")
  case True
  then show ?thesis by (simp add: toDouble_def)
next
  case False
  then have v: "1 \<le> real n" by simp
  define e where "e = binaryExponentDown 1023 (real n)"
  have "2 ^ e \<le> real n" unfolding e_def using v by (rule binaryExponentDown_le)
  also have "real n < 2 ^ 53" using assms by (metis of_nat_less_iff of_nat_numeral of_nat_power)
  finally have lt: "(2::real) ^ e < 2 ^ 53" .
  have "(1::real) < 2" by simp
  from this lt have e: "e < 53" by (rule power_less_imp_less_exp)
  define q where "q = 52 - e"
  have p: "int e - 52 \<le> 0" "nat (- (int e - 52)) = q" using e by (simp_all add: q_def)
  have pw: "pow2 (int e - 52) = 1 / 2 ^ q"
    using pow2_nonpos [OF p(1)] p(2) by simp
  have "real n / pow2 (int e - 52) = of_int (int n * 2 ^ q)"
    unfolding pw by simp
  then have r: "roundHalfEven (real n / pow2 (int e - 52)) = int n * 2 ^ q"
    by (simp only: roundHalfEven_int)
  have "toDoublePos (real n) = of_int (int n * 2 ^ q) * pow2 (int e - 52)"
    using v by (simp add: toDoublePos_def binaryExponent_def Let_def e_def [symmetric] r)
  also have "\<dots> = real n" unfolding pw by simp
  finally show ?thesis using False by (simp add: toDouble_def)
qed

lemma isDouble_nat: "n < 2 ^ 53 \<Longrightarrow> isDouble (real n)"
  by (simp add: isDouble_def toDouble_nat)

subsection \<open>Powers of ten and the search for the shortest digits\<close>

lemma scale10_pos: "0 < scale10 1 j"
  by (simp add: scale10_def)

lemma scale10_nat: "0 \<le> j \<Longrightarrow> scale10 x j = x * 10 ^ nat j"
  by (simp add: scale10_def)

lemma scale10_grid: "- int K \<le> j \<Longrightarrow> scale10 1 j * 10 ^ K = 10 ^ nat (j + int K)"
proof (cases "0 \<le> j")
  case True
  then have "nat (j + int K) = nat j + K" by simp
  then show ?thesis using True by (simp add: scale10_def power_add)
next
  case False
  assume a: "- int K \<le> j"
  have "K = nat (j + int K) + nat (- j)" using False a by simp
  then have "(10::real) ^ K = 10 ^ nat (j + int K) * 10 ^ nat (- j)"
    by (metis power_add)
  then show ?thesis using False by (simp add: scale10_def)
qed

lemma scale10_add: "0 \<le> d \<Longrightarrow> scale10 1 (a + d) = scale10 1 a * 10 ^ nat d"
proof -
  assume d: "0 \<le> d"
  define K where "K = nat (- a)"
  have a: "- int K \<le> a" "- int K \<le> a + d" using d by (simp_all add: K_def)
  have "scale10 1 (a + d) * 10 ^ K = 10 ^ nat (a + d + int K)"
    using a(2) by (rule scale10_grid)
  also have "nat (a + d + int K) = nat (a + int K) + nat d"
    using a(1) d by simp
  also have "(10::real) ^ (nat (a + int K) + nat d) = scale10 1 a * 10 ^ K * 10 ^ nat d"
    unfolding scale10_grid [OF a(1)] by (simp add: power_add)
  finally have "scale10 1 (a + d) * 10 ^ K = scale10 1 a * 10 ^ nat d * 10 ^ K"
    by (simp add: mult.assoc mult.commute)
  then show ?thesis by simp
qed

lemma scale10_mono: "a \<le> b \<Longrightarrow> scale10 1 a \<le> scale10 1 b"
proof -
  assume "a \<le> b"
  then have "scale10 1 b = scale10 1 a * 10 ^ nat (b - a)"
    using scale10_add [of "b - a" a] by simp
  moreover have "(1::real) \<le> 10 ^ nat (b - a)" by (rule one_le_power) simp
  ultimately show ?thesis
    using scale10_pos [of a] by (simp add: mult_le_cancel_left1)
qed

text \<open>One step of the search for the shortest digits.\<close>

lemma shortestFrom_step:
  fixes x :: real
  defines "u \<equiv> \<lambda>n k. scale10 1 (n - int k)"
  shows "shortestFrom (Suc fuel) k n x = of_int \<lfloor>x / u n k\<rfloor> * u n k
            \<and> toDouble (of_int \<lfloor>x / u n k\<rfloor> * u n k) = x
         \<or> shortestFrom (Suc fuel) k n x = of_int \<lfloor>x / u n k\<rfloor> * u n k + u n k
            \<and> toDouble (of_int \<lfloor>x / u n k\<rfloor> * u n k + u n k) = x
         \<or> shortestFrom (Suc fuel) k n x = shortestFrom fuel (Suc k) n x"
  unfolding u_def by (simp add: Let_def)

lemma shortestFrom_spec:
  assumes "0 \<le> x"
  shows "1 \<le> k \<Longrightarrow> int k + int fuel \<le> n + int K + 1 \<Longrightarrow>
         shortestFrom fuel k n x = x \<or>
         (toDouble (shortestFrom fuel k n x) = x \<and> shortestFrom fuel k n x * 10 ^ K \<in> \<int>
          \<and> 0 \<le> shortestFrom fuel k n x \<and> shortestFrom fuel k n x \<le> x + scale10 1 (n - 1))"
proof (induction fuel arbitrary: k)
  case 0
  then show ?case by simp
next
  case (Suc fuel)
  define u where "u = scale10 1 (n - int k)"
  define s where "s = \<lfloor>x / u\<rfloor>"
  have up: "0 < u" unfolding u_def by (rule scale10_pos)
  have j: "- int K \<le> n - int k" using Suc.prems(2) by simp
  have ug: "u * 10 ^ K = of_int (10 ^ nat (n - int k + int K))"
    unfolding u_def scale10_grid [OF j] by simp
  have lo_grid: "of_int s * u * 10 ^ K \<in> \<int>"
  proof -
    have "of_int s * u * 10 ^ K = of_int s * (u * 10 ^ K)" by (simp only: mult.assoc)
    also have "\<dots> = of_int (s * 10 ^ nat (n - int k + int K))" unfolding ug by simp
    finally show ?thesis by (simp only: Ints_of_int)
  qed
  have hi_grid: "(of_int s * u + u) * 10 ^ K \<in> \<int>"
  proof -
    have "(of_int s * u + u) * 10 ^ K = of_int (s + 1) * (u * 10 ^ K)"
      by (simp add: algebra_simps)
    also have "\<dots> = of_int ((s + 1) * 10 ^ nat (n - int k + int K))" unfolding ug by simp
    finally show ?thesis by (simp only: Ints_of_int)
  qed
  have s0: "0 \<le> s" unfolding s_def using assms up by simp
  have lo0: "0 \<le> of_int s * u" using s0 up by simp
  have "of_int s \<le> x / u" unfolding s_def by simp
  then have lo_le: "of_int s * u \<le> x" using up by (simp add: pos_le_divide_eq)
  have "u \<le> scale10 1 (n - 1)"
    unfolding u_def using Suc.prems(1) by (intro scale10_mono) simp
  then have hi_le: "of_int s * u + u \<le> x + scale10 1 (n - 1)" using lo_le by simp
  have lo_le': "of_int s * u \<le> x + scale10 1 (n - 1)"
    using lo_le scale10_pos [of "n - 1"] by simp
  note st = shortestFrom_step [of fuel k n x, folded u_def, folded s_def]
  from st show ?case
  proof (elim disjE conjE)
    assume a: "shortestFrom (Suc fuel) k n x = of_int s * u" "toDouble (of_int s * u) = x"
    show ?thesis unfolding a(1) using a(2) lo_grid lo0 lo_le' by blast
  next
    assume a: "shortestFrom (Suc fuel) k n x = of_int s * u + u" "toDouble (of_int s * u + u) = x"
    have "0 \<le> of_int s * u + u" using lo0 up by simp
    then show ?thesis unfolding a(1) using a(2) hi_grid hi_le by blast
  next
    assume a: "shortestFrom (Suc fuel) k n x = shortestFrom fuel (Suc k) n x"
    have "1 \<le> Suc k" "int (Suc k) + int fuel \<le> n + int K + 1" using Suc.prems by simp_all
    then show ?thesis unfolding a by (rule Suc.IH)
  qed
qed

subsection \<open>Reading a decimal literal\<close>

lemma isDigit10_not_space: "isDigit 10 c \<Longrightarrow> \<not> isWhiteSpace c"
  by (auto simp: isDigit10_iff isWhiteSpace_def)

lemma isDigit10_not_sign: "isDigit 10 c \<Longrightarrow> c \<noteq> CHR ''-'' \<and> c \<noteq> CHR ''+'' \<and> c \<noteq> CHR ''.''"
  by (auto simp: isDigit10_iff)

lemma readSign_digit: "isDigit 10 c \<Longrightarrow> readSign (c # s) = (False, c # s)"
  using isDigit10_not_sign by simp

lemma readFraction_Nil: "readFraction [] = ([], [])"
  by (simp add: readFraction_def)

lemma readFraction_other: "c \<noteq> CHR ''.'' \<Longrightarrow> readFraction (c # s) = ([], c # s)"
  by (simp add: readFraction_def)

lemma readFraction_digits:
  "\<forall>c \<in> set fd. isDigit 10 c \<Longrightarrow> rest = [] \<or> \<not> isDigit 10 (hd rest) \<Longrightarrow>
   readFraction (CHR ''.'' # fd @ rest) = (fd, rest)"
  unfolding readFraction_def
  by (simp only: list.case takeWhile_run dropWhile_run) simp

lemma parseFloat_shape:
  assumes ds: "ds \<noteq> []" "\<forall>c \<in> set ds. isDigit 10 c"
    and fd: "\<forall>c \<in> set fd. isDigit 10 c"
    and fp: "fp = (if fd = [] then [] else CHR ''.'' # fd)"
    and rest: "rest = [] \<or> (\<not> isDigit 10 (hd rest) \<and> hd rest \<noteq> CHR ''.'')"
  shows "parseFloat (ds @ fp @ rest) =
    Num (toDouble (scale10 (real (digitsVal 10 ds) + real (digitsVal 10 fd) / 10 ^ length fd)
           (readExponent rest)))"
proof -
  obtain d ds' where d: "ds = d # ds'" "isDigit 10 d"
    using ds by (cases ds) auto
  have 1: "dropWhile isWhiteSpace (ds @ fp @ rest) = ds @ fp @ rest"
    using d isDigit10_not_space by simp
  have 2: "readSign (ds @ fp @ rest) = (False, ds @ fp @ rest)"
    using d readSign_digit by simp
  have stop: "fp @ rest = [] \<or> \<not> isDigit 10 (hd (fp @ rest))"
    using fp rest isDigit10_not_sign by (cases "fd = []") auto
  have 3: "takeWhile (isDigit 10) (ds @ fp @ rest) = ds"
    using ds(2) stop by (rule takeWhile_run)
  have 4: "dropWhile (isDigit 10) (ds @ fp @ rest) = fp @ rest"
    using ds(2) stop by (rule dropWhile_run)
  have 5: "readFraction (fp @ rest) = (fd, rest)"
  proof (cases "fd = []")
    case True
    then show ?thesis
      using fp rest by (cases rest) (simp_all add: readFraction_Nil readFraction_other)
  next
    case False
    have "rest = [] \<or> \<not> isDigit 10 (hd rest)" using rest by blast
    then show ?thesis
      using False fp readFraction_digits [OF fd] by simp
  qed
  show ?thesis
    unfolding parseFloat_def 1 2 Let_def prod.case 3 4 5 using ds(1) by (simp add: signed_def)
qed

lemma readExponent_Nil: "readExponent [] = 0"
  by (simp add: readExponent_def)

lemma scale10_0: "scale10 x 0 = x"
  by (simp add: scale10_def)

lemma digitsVal_Nil: "digitsVal r [] = 0"
  by (simp add: digitsVal_def)

lemma parseFloat_showNat:
  assumes "n < 2 ^ 53"
  shows "parseFloat (showNat 10 n) = Num (real n)"
proof -
  have "parseFloat (showNat 10 n @ [] @ []) =
    Num (toDouble (scale10 (real (digitsVal 10 (showNat 10 n)) + real (digitsVal 10 []) / 10 ^ length ([]::string))
           (readExponent [])))"
    by (rule parseFloat_shape) (auto simp: showNat_nonempty showNat_digits)
  then show ?thesis
    by (simp add: readExponent_Nil scale10_0 digitsVal_Nil digitsVal_showNat toDouble_nat [OF assms])
qed

lemma fracDigits_0: "fracDigits r k 0 = []"
  by (cases k) simp_all

lemma digitChar_0: "digitChar 0 = CHR ''0''"
  by code_simp

lemma showNat_0: "showNat r 0 = ''0''"
proof -
  have "0 < r \<or> r < 2" by arith
  then show ?thesis
    by (subst showNat.simps) (simp add: digitChar_0)
qed

lemma showFixed_nat: "showFixed r k (real n) = showNat r n"
  by (simp add: showFixed_def fracDigits_0)

lemma frac_step:
  fixes f :: real
  assumes "0 \<le> f" "f < 1" "0 < r"
  shows "nat \<lfloor>f * real r\<rfloor> < r" and "0 \<le> f * real r - of_int \<lfloor>f * real r\<rfloor>"
    and "f * real r - of_int \<lfloor>f * real r\<rfloor> < 1"
proof -
  have "f * real r < real r" using assms by simp
  then have "\<lfloor>f * real r\<rfloor> < int r" by (simp add: floor_less_iff)
  moreover have "0 \<le> \<lfloor>f * real r\<rfloor>" using assms by simp
  ultimately show "nat \<lfloor>f * real r\<rfloor> < r" by linarith
  show "0 \<le> f * real r - of_int \<lfloor>f * real r\<rfloor>" by simp
  show "f * real r - of_int \<lfloor>f * real r\<rfloor> < 1" by linarith
qed

lemma fracDigits_digits:
  "2 \<le> r \<Longrightarrow> r \<le> 16 \<Longrightarrow> 0 \<le> f \<Longrightarrow> f < 1 \<Longrightarrow> c \<in> set (fracDigits r k f) \<Longrightarrow> isDigit r c"
proof (induction k arbitrary: f)
  case 0
  then show ?case by simp
next
  case (Suc k)
  have r: "0 < r" using Suc.prems(1) by simp
  note st = frac_step [OF Suc.prems(3,4) r]
  show ?case
  proof (cases "f = 0")
    case True
    then show ?thesis using Suc.prems by simp
  next
    case False
    then have "c = digitChar (nat \<lfloor>f * real r\<rfloor>)
        \<or> c \<in> set (fracDigits r k (f * real r - of_int \<lfloor>f * real r\<rfloor>))"
      using Suc.prems(5) by simp
    then show ?thesis
    proof
      assume "c = digitChar (nat \<lfloor>f * real r\<rfloor>)"
      then show ?thesis using st(1) Suc.prems(2) by (simp add: isDigit_digitChar)
    next
      assume "c \<in> set (fracDigits r k (f * real r - of_int \<lfloor>f * real r\<rfloor>))"
      then show ?thesis by (rule Suc.IH [OF Suc.prems(1,2) st(2,3)])
    qed
  qed
qed

lemma foldl_digits:
  "foldl (\<lambda>acc c. acc * r + v c) a ds = a * r ^ length ds + foldl (\<lambda>acc c. acc * r + v c) (0::nat) ds"
proof (induction ds arbitrary: a)
  case Nil
  then show ?case by simp
next
  case (Cons d ds)
  have "foldl (\<lambda>acc c. acc * r + v c) (a * r + v d) ds =
      (a * r + v d) * r ^ length ds + foldl (\<lambda>acc c. acc * r + v c) 0 ds"
    by (rule Cons.IH)
  moreover have "foldl (\<lambda>acc c. acc * r + v c) (v d) ds =
      v d * r ^ length ds + foldl (\<lambda>acc c. acc * r + v c) 0 ds"
    by (rule Cons.IH)
  ultimately show ?case by (simp add: add_mult_distrib)
qed

lemma digitsVal_Cons:
  "digitsVal r (c # ds) = the (digitVal c) * r ^ length ds + digitsVal r ds"
  unfolding digitsVal_def using foldl_digits [of r "\<lambda>c. the (digitVal c)" "the (digitVal c)" ds]
  by simp

lemma fracDigits_value:
  "0 \<le> f \<Longrightarrow> f < 1 \<Longrightarrow> f * 10 ^ k \<in> \<int> \<Longrightarrow>
   real (digitsVal 10 (fracDigits 10 k f)) / 10 ^ length (fracDigits 10 k f) = f"
proof (induction k arbitrary: f)
  case 0
  then obtain z :: int where "f = of_int z" by (auto elim: Ints_cases)
  then have "f = 0" using 0(1,2) by simp
  then show ?case by (simp add: digitsVal_Nil)
next
  case (Suc k)
  show ?case
  proof (cases "f = 0")
    case True
    then show ?thesis by (simp add: digitsVal_Nil)
  next
    case False
    define d where "d = \<lfloor>f * 10\<rfloor>"
    define f' where "f' = f * 10 - of_int d"
    have st: "nat d < 10" "0 \<le> f'" "f' < 1"
      using frac_step [OF Suc.prems(1,2), of 10] by (simp_all add: d_def f'_def)
    have d0: "0 \<le> d" using Suc.prems(1) by (simp add: d_def)
    have "f' * 10 ^ k = f * 10 ^ Suc k - of_int (d * 10 ^ k)"
      by (simp add: f'_def algebra_simps)
    then have "f' * 10 ^ k \<in> \<int>" using Suc.prems(3) by (simp only: Ints_diff Ints_of_int)
    then have ih: "real (digitsVal 10 (fracDigits 10 k f')) / 10 ^ length (fracDigits 10 k f') = f'"
      by (rule Suc.IH [OF st(2,3)])
    have fd: "fracDigits 10 (Suc k) f = digitChar (nat d) # fracDigits 10 k f'"
      using False by (simp add: d_def f'_def)
    have dv: "the (digitVal (digitChar (nat d))) = nat d"
      using st(1) by (simp add: digitVal_digitChar)
    define n where "n = length (fracDigits 10 k f')"
    have "real (digitsVal 10 (fracDigits 10 (Suc k) f)) / 10 ^ length (fracDigits 10 (Suc k) f)
        = (real (nat d) * 10 ^ n + real (digitsVal 10 (fracDigits 10 k f'))) / 10 ^ Suc n"
      unfolding fd digitsVal_Cons dv by (simp add: n_def)
    also have "\<dots> = (real (nat d) + real (digitsVal 10 (fracDigits 10 k f')) / 10 ^ n) / 10"
      by (simp add: field_simps)
    also have "\<dots> = (real (nat d) + f') / 10"
      using ih by (simp add: n_def)
    also have "\<dots> = f"
      using d0 by (simp add: f'_def)
    finally show ?thesis .
  qed
qed

lemma scaleUp_done: "1 \<le> v \<Longrightarrow> scaleUp k v = (v, 0)"
  by (cases k) simp_all

lemma scaleUp_value: "scaleUp k v = (m, e) \<Longrightarrow> m = v * 10 ^ e"
proof (induction k arbitrary: v m e)
  case 0
  then show ?case by simp
next
  case (Suc k)
  show ?case
  proof (cases "1 \<le> v")
    case True
    then show ?thesis using Suc.prems by simp
  next
    case False
    obtain m' e' where r: "scaleUp k (v * 10) = (m', e')" by (cases "scaleUp k (v * 10)")
    then have "m = m'" "e = Suc e'" using False Suc.prems by simp_all
    then show ?thesis using Suc.IH [OF r] by simp
  qed
qed

lemma readExponent_minus:
  "readExponent (CHR ''e'' # CHR ''-'' # showNat 10 e) = - int e"
proof -
  have t: "takeWhile (isDigit 10) (showNat 10 e) = showNat 10 e"
    using showNat_digits [of 10] by simp
  show ?thesis
    by (simp add: readExponent_def Let_def t showNat_nonempty digitsVal_showNat)
qed


lemma showFixed_read:
  assumes "0 \<le> m" and "m * 10 ^ K \<in> \<int>"
    and "rest = [] \<or> (\<not> isDigit 10 (hd rest) \<and> hd rest \<noteq> CHR ''.'')"
  shows "parseFloat (showFixed 10 K m @ rest) = Num (toDouble (scale10 m (readExponent rest)))"
proof -
  define f where "f = m - of_int \<lfloor>m\<rfloor>"
  define fd where "fd = fracDigits 10 K f"
  have f: "0 \<le> f" "f < 1" unfolding f_def by linarith+
  have "f * 10 ^ K = m * 10 ^ K - of_int (\<lfloor>m\<rfloor> * 10 ^ K)"
    by (simp add: f_def algebra_simps)
  then have fi: "f * 10 ^ K \<in> \<int>" using assms(2) by (simp only: Ints_diff Ints_of_int)
  have val: "real (digitsVal 10 fd) / 10 ^ length fd = f"
    unfolding fd_def by (rule fracDigits_value [OF f fi])
  have dg: "\<forall>c \<in> set fd. isDigit 10 c"
    unfolding fd_def using fracDigits_digits [OF _ _ f, of 10] by simp
  have sd: "\<forall>c \<in> set (showNat 10 (nat \<lfloor>m\<rfloor>)). isDigit 10 c"
    using showNat_digits [of 10] by simp
  have s: "showFixed 10 K m @ rest =
      showNat 10 (nat \<lfloor>m\<rfloor>) @ (if fd = [] then [] else CHR ''.'' # fd) @ rest"
    by (simp add: showFixed_def fd_def f_def Let_def)
  have "parseFloat (showFixed 10 K m @ rest) =
      Num (toDouble (scale10 (real (digitsVal 10 (showNat 10 (nat \<lfloor>m\<rfloor>)))
                               + real (digitsVal 10 fd) / 10 ^ length fd)
             (readExponent rest)))"
    unfolding s by (rule parseFloat_shape [OF showNat_nonempty sd dg refl assms(3)])
  also have "real (digitsVal 10 (showNat 10 (nat \<lfloor>m\<rfloor>))) + real (digitsVal 10 fd) / 10 ^ length fd
      = real (nat \<lfloor>m\<rfloor>) + f"
    by (simp add: val digitsVal_showNat)
  also have "real (nat \<lfloor>m\<rfloor>) + f = m"
    using assms(1) by (simp add: f_def)
  finally show ?thesis .
qed

lemma scale10_back: "scale10 (d * 10 ^ e) (- int e) = d"
proof (cases "e = 0")
  case True
  then show ?thesis by (simp add: scale10_def)
next
  case False
  then have "\<not> 0 \<le> - int e" "nat (- (- int e)) = e" by simp_all
  then show ?thesis by (simp add: scale10_def)
qed

text \<open>A decimal number of at most 1074 digits after the point is read back from its digits.\<close>

lemma showPos_plain: "\<not> d < 1 / 10 ^ 6 \<Longrightarrow> d < 10 ^ 21 \<Longrightarrow> showPos d = showFixed 10 1074 d"
  by (simp add: showPos_def)

lemma showPos_small:
  "d < 1 / 10 ^ 6 \<Longrightarrow> scaleUp 1074 d = (m, e) \<Longrightarrow>
   showPos d = showFixed 10 1074 m @ (CHR ''e'' # CHR ''-'' # showNat 10 e)"
proof -
  assume a: "d < 1 / 10 ^ 6" and sc: "scaleUp 1074 d = (m, e)"
  have "d < 10 ^ 21" using a by (rule less_trans) simp
  then have "\<not> 10 ^ 21 \<le> d" by simp
  then show ?thesis unfolding showPos_def sc using a by simp
qed

lemma showFixed_read_plain:
  assumes "0 \<le> d" and "d * 10 ^ K \<in> \<int>"
  shows "parseFloat (showFixed 10 K d) = Num (toDouble d)"
proof -
  have "parseFloat (showFixed 10 K d @ []) = Num (toDouble (scale10 d (readExponent [])))"
    by (rule showFixed_read [OF assms]) simp
  then show ?thesis
    unfolding readExponent_Nil scale10_0 by simp
qed

lemma showFixed_read_small:
  assumes "0 < d" and "d * 10 ^ K \<in> \<int>" and sc: "scaleUp k d = (m, e)"
  shows "parseFloat (showFixed 10 K m @ (CHR ''e'' # CHR ''-'' # showNat 10 e)) = Num (toDouble d)"
proof -
  have m: "m = d * 10 ^ e" using sc by (rule scaleUp_value)
  obtain z :: int where z: "d * 10 ^ K = of_int z" using assms(2) by (auto elim: Ints_cases)
  have "m * 10 ^ K = d * 10 ^ K * 10 ^ e"
    unfolding m by (simp only: mult.assoc mult.commute [of "10 ^ e"])
  also have "\<dots> = of_int (z * 10 ^ e)" unfolding z by simp
  finally have mi: "m * 10 ^ K \<in> \<int>" by (simp only: Ints_of_int)
  have m0: "0 \<le> m" unfolding m using assms(1) by simp
  have re: "\<not> isDigit 10 CHR ''e''" by (simp add: isDigit10_iff)
  have "parseFloat (showFixed 10 K m @ (CHR ''e'' # CHR ''-'' # showNat 10 e)) =
      Num (toDouble (scale10 m (readExponent (CHR ''e'' # CHR ''-'' # showNat 10 e))))"
    using m0 mi by (rule showFixed_read) (simp add: re)
  also have "scale10 m (readExponent (CHR ''e'' # CHR ''-'' # showNat 10 e)) = d"
    unfolding readExponent_minus m by (rule scale10_back)
  finally show ?thesis .
qed

lemma showPos_read:
  assumes "0 < d" and "d < 10 ^ 21" and "d * 10 ^ 1074 \<in> \<int>"
  shows "parseFloat (showPos d) = Num (toDouble d)"
proof (cases "d < 1 / 10 ^ 6")
  case False
  show ?thesis
    unfolding showPos_plain [OF False assms(2)]
    by (rule showFixed_read_plain [OF less_imp_le [OF assms(1)] assms(3)])
next
  case True
  obtain m e where sc: "scaleUp 1074 d = (m, e)" by (cases "scaleUp 1074 d")
  show ?thesis
    unfolding showPos_small [OF True sc]
    by (rule showFixed_read_small [OF assms(1) assms(3) sc])
qed

subsection \<open>Printing a double and reading it back\<close>

text \<open>Bounds on the decimal exponent.\<close>

lemma scaleDown_le: "v < 10 ^ Suc e \<Longrightarrow> snd (scaleDown k v) \<le> e"
proof (induction k arbitrary: v e)
  case 0
  then show ?case by simp
next
  case (Suc k)
  show ?case
  proof (cases "v < 10")
    case True
    then show ?thesis by simp
  next
    case False
    obtain m' e' where r: "scaleDown k (v / 10) = (m', e')" by (cases "scaleDown k (v / 10)")
    have s: "snd (scaleDown (Suc k) v) = Suc e'" using False r by simp
    have "e \<noteq> 0"
    proof
      assume "e = 0"
      then show False using False Suc.prems by simp
    qed
    then obtain e0 where e: "e = Suc e0" by (cases e) simp_all
    have "v / 10 < 10 ^ Suc e0" using Suc.prems unfolding e by simp
    then have "snd (scaleDown k (v / 10)) \<le> e0" by (rule Suc.IH)
    then show ?thesis unfolding s e using r by simp
  qed
qed

lemma scaleDown_ge: "1 \<le> v \<Longrightarrow> 10 ^ snd (scaleDown k v) \<le> v"
proof (induction k arbitrary: v)
  case 0
  then show ?case by simp
next
  case (Suc k)
  show ?case
  proof (cases "v < 10")
    case True
    then show ?thesis using Suc.prems by simp
  next
    case False
    obtain m' e' where r: "scaleDown k (v / 10) = (m', e')" by (cases "scaleDown k (v / 10)")
    have s: "snd (scaleDown (Suc k) v) = Suc e'" using False r by simp
    have "1 \<le> v / 10" using False by simp
    then have "10 ^ snd (scaleDown k (v / 10)) \<le> v / 10" by (rule Suc.IH)
    then show ?thesis unfolding s using r by simp
  qed
qed

lemma scaleUp_le: "snd (scaleUp k v) \<le> k"
proof (induction k arbitrary: v)
  case 0
  then show ?case by simp
next
  case (Suc k)
  show ?case
  proof (cases "1 \<le> v")
    case True
    then show ?thesis by simp
  next
    case False
    obtain m' e' where r: "scaleUp k (v * 10) = (m', e')" by (cases "scaleUp k (v * 10)")
    have "snd (scaleUp k (v * 10)) \<le> k" by (rule Suc.IH)
    then show ?thesis using False r by simp
  qed
qed

lemma decimalExponent_ge: "- 1073 \<le> decimalExponent x"
proof (cases "1 \<le> x")
  case True
  then show ?thesis by (simp add: decimalExponent_def)
next
  case False
  have "snd (scaleUp 1074 x) \<le> 1074" by (rule scaleUp_le)
  then show ?thesis using False by (simp add: decimalExponent_def)
qed

lemma decimalExponent_pos: "1 \<le> x \<Longrightarrow> 1 \<le> decimalExponent x"
  by (simp add: decimalExponent_def)

lemma decimalExponent_le: "x < 10 ^ Suc e \<Longrightarrow> decimalExponent x \<le> int e + 1"
proof (cases "1 \<le> x")
  case True
  assume "x < 10 ^ Suc e"
  then have "snd (scaleDown 309 x) \<le> e" by (rule scaleDown_le)
  then show ?thesis using True by (simp add: decimalExponent_def)
next
  case False
  then show ?thesis by (simp add: decimalExponent_def)
qed

lemma decimalExponent_low: "1 \<le> x \<Longrightarrow> scale10 1 (decimalExponent x - 1) \<le> x"
proof -
  assume a: "1 \<le> x"
  have "10 ^ snd (scaleDown 309 x) \<le> x" using a by (rule scaleDown_ge)
  then show ?thesis using a by (simp add: decimalExponent_def scale10_def)
qed

lemma toDouble_0: "toDouble 0 = 0"
  by (simp add: toDouble_def)

text \<open>The digits printed for a double are those of a decimal number that reads back as it.\<close>

lemma shortest_spec:
  assumes "0 < x" and "toDouble x = x" and "x < 10 ^ 20" and K: "K = 1074"
  shows "toDouble (shortest x) = x \<and> shortest x * 10 ^ K \<in> \<int> \<and> 0 < shortest x
         \<and> shortest x < 10 ^ 21"
proof -
  define n where "n = decimalExponent x"
  define d where "d = shortestFrom (nat (n + 1074)) 1 n x"
  have n1: "- 1073 \<le> n" unfolding n_def by (rule decimalExponent_ge)
  have "x < 10 ^ Suc 19" using assms(3) by simp
  then have "n \<le> int 19 + 1" unfolding n_def by (rule decimalExponent_le)
  then have n2: "n - 1 \<le> 19" by simp
  have sh: "shortest x = d" by (simp add: shortest_def n_def d_def Let_def)
  have x0: "0 \<le> x" using assms(1) by simp
  have f: "int 1 + int (nat (n + 1074)) \<le> n + int K + 1" using n1 K by simp
  have g: "x * 10 ^ K \<in> \<int>" using toDouble_grid10 [OF K, of x] assms(2) by simp
  have "scale10 1 (n - 1) \<le> scale10 1 19" using n2 by (rule scale10_mono)
  also have "scale10 1 19 = 10 ^ 19" by (simp add: scale10_def)
  finally have b: "x + scale10 1 (n - 1) < 10 ^ 21" using assms(3) by simp
  have b0: "0 < scale10 1 (n - 1)" by (rule scale10_pos)
  have "d = x \<or> (toDouble d = x \<and> d * 10 ^ K \<in> \<int> \<and> 0 \<le> d \<and> d \<le> x + scale10 1 (n - 1))"
    unfolding d_def by (rule shortestFrom_spec [OF x0 _ f]) simp
  then have r: "toDouble d = x \<and> d * 10 ^ K \<in> \<int> \<and> 0 \<le> d \<and> d \<le> x + scale10 1 (n - 1)"
    using assms(2) g x0 b0 by auto
  then have "d \<noteq> 0" using assms(1) toDouble_0 by auto
  then have "0 < d" using r by simp
  moreover have "d < 10 ^ 21" using r b by simp
  ultimately show ?thesis unfolding sh using r by simp
qed

lemma numToString_read:
  assumes "isDouble x" and "0 \<le> x" and "x < 10 ^ 20"
  shows "parseFloat (numToString (Num x)) = Num x"
proof (cases "x = 0")
  case True
  have "parseFloat ''0'' = Num 0" by code_simp
  then show ?thesis using True by (simp add: toDouble_0)
next
  case False
  then have x: "0 < x" using assms(2) by simp
  have t: "toDouble x = x" using assms(1) by (simp add: isDouble_def)
  have s: "numToString (Num x) = showPos (shortest x)"
    using x t by (simp add: Let_def)
  note sp = shortest_spec [OF x t assms(3) refl]
  have a: "0 < shortest x" "shortest x < 10 ^ 21" "shortest x * 10 ^ 1074 \<in> \<int>"
    using sp by blast+
  have b: "toDouble (shortest x) = x" using sp by (rule conjunct1)
  have "parseFloat (showPos (shortest x)) = Num (toDouble (shortest x))"
    using a by (rule showPos_read)
  then show ?thesis unfolding s b .
qed

text \<open>An integer below \<open>2^52\<close> is printed with its own digits.\<close>

lemma shortestFrom_cases:
  fixes x :: real
  defines "u \<equiv> \<lambda>n k. scale10 1 (n - int k)"
  shows "shortestFrom (Suc fuel) k n x = of_int \<lfloor>x / u n k\<rfloor> * u n k
            \<and> toDouble (of_int \<lfloor>x / u n k\<rfloor> * u n k) = x
         \<or> shortestFrom (Suc fuel) k n x = of_int \<lfloor>x / u n k\<rfloor> * u n k + u n k
            \<and> toDouble (of_int \<lfloor>x / u n k\<rfloor> * u n k + u n k) = x
         \<or> shortestFrom (Suc fuel) k n x = shortestFrom fuel (Suc k) n x
            \<and> toDouble (of_int \<lfloor>x / u n k\<rfloor> * u n k) \<noteq> x"
  unfolding u_def by (simp add: Let_def)

lemma shortestFrom_nat:
  assumes "n < 2 ^ 52" and "10 ^ (N - 1) \<le> n"
  shows "1 \<le> k \<Longrightarrow> k \<le> N \<Longrightarrow> N < k + fuel \<Longrightarrow>
         shortestFrom fuel k (int N) (real n) = real n"
proof (induction fuel arbitrary: k)
  case 0
  then show ?case by simp
next
  case (Suc fuel)
  define j where "j = N - k"
  define l where "l = n div 10 ^ j * 10 ^ j"
  have "0 \<le> int N - int k" using Suc.prems(2) by simp
  then have "scale10 1 (int N - int k) = 1 * 10 ^ nat (int N - int k)" by (rule scale10_nat)
  moreover have "nat (int N - int k) = j" using Suc.prems(2) by (simp add: j_def)
  ultimately have u: "scale10 1 (int N - int k) = real (10 ^ j)" by simp
  have fl: "\<lfloor>real n / real (10 ^ j)\<rfloor> = int (n div 10 ^ j)"
    by (rule floor_divide_of_nat_eq)
  have lo: "of_int \<lfloor>real n / real (10 ^ j)\<rfloor> * real (10 ^ j) = real l"
    unfolding fl l_def by simp
  have hi: "real l + real (10 ^ j) = real (l + 10 ^ j)" by simp
  have l_le: "l \<le> n" unfolding l_def by simp
  have "j \<le> N - 1" using Suc.prems(1) by (simp add: j_def)
  then have "(10::nat) ^ j \<le> 10 ^ (N - 1)" by (intro power_increasing) simp_all
  then have "10 ^ j \<le> n" using assms(2) by (rule le_trans)
  then have "l + 10 ^ j \<le> n + n" using l_le by simp
  moreover have "n + n < 2 ^ 53" using assms(1) by simp
  ultimately have h53: "l + 10 ^ j < 2 ^ 53" by (rule le_less_trans)
  have "l < 2 ^ 53" using l_le assms(1) by simp
  then have tl: "toDouble (real l) = real l" by (rule toDouble_nat)
  have th: "toDouble (real (l + 10 ^ j)) = real (l + 10 ^ j)" using h53 by (rule toDouble_nat)
  note st = shortestFrom_cases [of fuel k "int N" "real n", unfolded u lo hi tl th]
  from st show ?case
  proof (elim disjE conjE)
    assume "shortestFrom (Suc fuel) k (int N) (real n) = real l" "real l = real n"
    then show ?thesis by simp
  next
    assume "shortestFrom (Suc fuel) k (int N) (real n) = real (l + 10 ^ j)"
      "real (l + 10 ^ j) = real n"
    then show ?thesis by simp
  next
    assume a: "shortestFrom (Suc fuel) k (int N) (real n) = shortestFrom fuel (Suc k) (int N) (real n)"
      "real l \<noteq> real n"
    have "k \<noteq> N"
    proof
      assume "k = N"
      then have "l = n" by (simp add: l_def j_def)
      then show False using a(2) by simp
    qed
    then have "1 \<le> Suc k" "Suc k \<le> N" "N < Suc k + fuel" using Suc.prems by simp_all
    then show ?thesis unfolding a(1) by (rule Suc.IH)
  qed
qed

lemma shortest_nat:
  assumes "0 < n" and "n < 2 ^ 52"
  shows "shortest (real n) = real n"
proof -
  define N where "N = nat (decimalExponent (real n))"
  have n1: "1 \<le> real n" using assms(1) by simp
  have d1: "1 \<le> decimalExponent (real n)" using n1 by (rule decimalExponent_pos)
  then have dN: "decimalExponent (real n) = int N" by (simp add: N_def)
  have "0 \<le> decimalExponent (real n) - 1" using d1 by simp
  then have "scale10 1 (decimalExponent (real n) - 1) = 1 * 10 ^ nat (decimalExponent (real n) - 1)"
    by (rule scale10_nat)
  moreover have "nat (decimalExponent (real n) - 1) = N - 1" using d1 by (simp add: N_def)
  moreover have "scale10 1 (decimalExponent (real n) - 1) \<le> real n"
    using n1 by (rule decimalExponent_low)
  ultimately have "real (10 ^ (N - 1)) \<le> real n" by simp
  then have low: "10 ^ (N - 1) \<le> n" by (simp only: of_nat_le_iff)
  have N1: "1 \<le> N" using d1 by (simp add: N_def)
  have "N < 1 + nat (int N + 1074)" by simp
  then have "shortestFrom (nat (int N + 1074)) 1 (int N) (real n) = real n"
    by (rule shortestFrom_nat [OF assms(2) low le_refl N1])
  then show ?thesis by (simp add: shortest_def dN Let_def)
qed

lemma numToString_nat:
  assumes "n < 2 ^ 52"
  shows "numToString (Num (real n)) = showNat 10 n"
proof (cases "n = 0")
  case True
  then show ?thesis by (simp add: toDouble_0 showNat_0)
next
  case False
  then have n0: "0 < n" by simp
  have "n < 2 ^ 53" using assms by (rule less_trans) simp
  then have t: "toDouble (real n) = real n" by (rule toDouble_nat)
  have s: "numToString (Num (real n)) = showPos (real n)"
    using n0 by (simp add: t shortest_nat [OF n0 assms] Let_def)
  have "real n < 2 ^ 52" using assms by (metis of_nat_less_iff of_nat_numeral of_nat_power)
  then have a: "real n < 10 ^ 21" by (rule less_trans) simp
  have b: "\<not> real n < 1 / 10 ^ 6"
  proof
    assume "real n < 1 / 10 ^ 6"
    then have "real n < 1" by (rule less_trans) simp
    then show False using n0 by simp
  qed
  show ?thesis unfolding s showPos_plain [OF b a] by (rule showFixed_nat)
qed

section \<open>Hexadecimal notation\<close>

lemma isDigit16_iff:
  "isDigit 16 c = (let n = (of_char c :: nat) in
     (48 \<le> n \<and> n \<le> 57) \<or> (97 \<le> n \<and> n \<le> 102) \<or> (65 \<le> n \<and> n \<le> 70))"
  by (auto simp: isDigit_def digitVal_def Let_def)

lemma isDigit16_digitVal: "isDigit 16 c \<Longrightarrow> \<exists>v < 16. digitVal c = Some v"
  by (auto simp: isDigit_def split: option.splits)

lemma isDigit16_plain:
  assumes "isDigit 16 c"
  shows "\<not> isWhiteSpace c" "\<not> isLineTerminator c" "c \<noteq> CHR ''-''" "c \<noteq> CHR ''+''"
    "c \<noteq> CHR ''x''" "c \<noteq> CHR ''X''"
  using assms by (auto simp: isDigit16_iff isWhiteSpace_def isLineTerminator_def Let_def)

lemma parseInt_hex_pair:
  assumes "isDigit 16 a" "isDigit 16 b"
  shows "parseInt [a, b] 16 = Num (real (the (digitVal a) * 16 + the (digitVal b)))"
proof -
  note pa = isDigit16_plain [OF assms(1)] and pb = isDigit16_plain [OF assms(2)]
  have 1: "dropWhile isWhiteSpace [a, b] = [a, b]" using pa by simp
  have 2: "readSign [a, b] = (False, [a, b])" using pa by simp
  have 3: "stripHexPrefix 16 [a, b] = [a, b]" using pb by (simp add: stripHexPrefix_def)
  have 4: "takeWhile (isDigit 16) [a, b] = [a, b]" using assms by simp
  obtain va vb where v: "va < 16" "digitVal a = Some va" "vb < 16" "digitVal b = Some vb"
    using isDigit16_digitVal [OF assms(1)] isDigit16_digitVal [OF assms(2)] by auto
  have "va * 16 + vb < 2 ^ 53" using v(1,3) by simp
  then have t: "toDouble (real (va * 16 + vb)) = real (va * 16 + vb)" by (rule toDouble_nat)
  have d: "digitsVal 16 [a, b] = va * 16 + vb" by (simp add: digitsVal_def v)
  show ?thesis
    unfolding parseInt_def 1 2 Let_def prod.case 3 4 d
    by (simp add: signed_def t v del: of_nat_add of_nat_mult)
qed

lemma matchAll_six:
  assumes "\<forall>c \<in> set [a, b, c, d, e, f]. \<not> isLineTerminator c"
  shows "matchAll 2 [a, b, c, d, e, f] = [[a, b], [c, d], [e, f]]"
  using assms by (simp add: Let_def)

lemma intToHex_byte:
  assumes "n < 256"
  shows "intToHex (Num (real n)) = [digitChar (n div 16), digitChar (n mod 16)]"
proof (cases "n < 16")
  case True
  then have "showNat 16 n = [digitChar n]" by (simp add: showNat.simps [of 16 n])
  then show ?thesis
    using True by (simp add: intToHex_def showFixed_nat Let_def digitChar_0)
next
  case False
  have "n div 16 < 16" using assms by simp
  then have "showNat 16 (n div 16) = [digitChar (n div 16)]"
    by (simp add: showNat.simps [of 16 "n div 16"])
  then have "showNat 16 n = [digitChar (n div 16), digitChar (n mod 16)]"
    using False by (simp add: showNat.simps [of 16 n])
  then show ?thesis
    by (simp add: intToHex_def showFixed_nat Let_def)
qed

lemma digitChar_digitVal:
  assumes "isDigit 16 c"
  shows "digitChar (the (digitVal c)) = lowerChar c"
proof -
  have "char_of (of_char c :: nat) = c" by simp
  then show ?thesis
    using assms
    by (auto simp: isDigit16_iff Let_def digitVal_def digitChar_def lowerChar_def)
qed

lemma lowerChar_idem: "lowerChar (lowerChar c) = lowerChar c"
  by (auto simp: lowerChar_def)

lemma toLowerCase_idem: "toLowerCase (toLowerCase s) = toLowerCase s"
  by (simp add: toLowerCase_def lowerChar_idem)

lemma lowerChar_hash: "lowerChar CHR ''#'' = CHR ''#''"
  by (simp add: lowerChar_def)

lemma showNat_no_comma: "CHR '','' \<notin> set (showNat 10 n)"
proof
  assume "CHR '','' \<in> set (showNat 10 n)"
  then have "isDigit 10 CHR '',''" by (rule showNat_digits [rotated 2]) simp_all
  then show False by (simp add: isDigit10_iff)
qed

lemma hex_byte_value:
  assumes "isDigit 16 a" "isDigit 16 b"
  shows "the (digitVal a) * 16 + the (digitVal b) < 256"
    and "(the (digitVal a) * 16 + the (digitVal b)) div 16 = the (digitVal a)"
    and "(the (digitVal a) * 16 + the (digitVal b)) mod 16 = the (digitVal b)"
  using isDigit16_digitVal [OF assms(1)] isDigit16_digitVal [OF assms(2)] by auto

lemma numToString_hex_pair:
  assumes "isDigit 16 a" "isDigit 16 b"
  shows "numToString (parseInt [a, b] 16) = showNat 10 (the (digitVal a) * 16 + the (digitVal b))"
  unfolding parseInt_hex_pair [OF assms]
  using hex_byte_value(1) [OF assms] by (intro numToString_nat) simp

lemma intToHex_hex_pair:
  assumes "isDigit 16 a" "isDigit 16 b"
  shows "intToHex (Num (real (the (digitVal a) * 16 + the (digitVal b)))) = [lowerChar a, lowerChar b]"
  unfolding intToHex_byte [OF hex_byte_value(1) [OF assms]] hex_byte_value(2,3) [OF assms]
  using assms by (simp add: digitChar_digitVal)

lemma hexToRgb_six:
  assumes "isDigit 16 a" "isDigit 16 b" "isDigit 16 c" "isDigit 16 d" "isDigit 16 e" "isDigit 16 f"
  shows "hexToRgb [h, a, b, c, d, e, f] =
    ''rgb'' @ ''('' @
      join '', '' [showNat 10 (the (digitVal a) * 16 + the (digitVal b)),
                   showNat 10 (the (digitVal c) * 16 + the (digitVal d)),
                   showNat 10 (the (digitVal e) * 16 + the (digitVal f))] @ '')''"
proof -
  have m: "matchAll 2 [a, b, c, d, e, f] = [[a, b], [c, d], [e, f]]"
    using assms by (intro matchAll_six) (auto simp: isDigit16_plain)
  have e: "enumerate 0 [[a, b], [c, d], [e, f]] = [(0, [a, b]), (1, [c, d]), (2, [e, f])]"
    by simp
  have "hexToRgb [h, a, b, c, d, e, f] =
    ''rgb'' @ ''('' @
      join '', '' [numToString (parseInt [a, b] 16), numToString (parseInt [c, d] 16),
                   numToString (parseInt [e, f] 16)] @ '')''"
    unfolding hexToRgb_def by (simp add: m Let_def del: matchAll.simps numToString.simps)
  then show ?thesis
    by (simp only: numToString_hex_pair assms)
qed

text \<open>
  C3: for a string \<open>h\<close> made of \<open>#\<close> and six hexadecimal digits,
  \<open>rgbToHex (hexToRgb h)\<close> is \<open>h\<close> in lower case, hence equal to \<open>h\<close> up to letter case.
\<close>

theorem rgbToHex_hexToRgb:
  assumes "h = CHR ''#'' # body" and "length body = 6" and "\<forall>x \<in> set body. isDigit 16 x"
  shows "rgbToHex (Str (hexToRgb h)) = Inr (toLowerCase h)
    \<and> toLowerCase (toLowerCase h) = toLowerCase h"
proof -
  obtain a b c d e f where body: "body = [a, b, c, d, e, f]"
    using assms(2) by (auto simp: length_Suc_conv eval_nat_numeral)
  have dg: "isDigit 16 a" "isDigit 16 b" "isDigit 16 c" "isDigit 16 d" "isDigit 16 e" "isDigit 16 f"
    using assms(3) body by simp_all
  define r where "r = the (digitVal a) * 16 + the (digitVal b)"
  define g where "g = the (digitVal c) * 16 + the (digitVal d)"
  define bl where "bl = the (digitVal e) * 16 + the (digitVal f)"
  have hx: "hexToRgb h = ''rgb'' @ ''('' @ join '', '' [showNat 10 r, showNat 10 g, showNat 10 bl] @ '')''"
    unfolding assms(1) body r_def g_def bl_def using dg by (rule hexToRgb_six)
  have st: "\<not> startsWith (hexToRgb h) ''#''"
    unfolding hx by (simp add: startsWith_def)
  have dc: "decomposeColor (Str (hexToRgb h)) =
    Inr \<lparr>type = ''rgb'', values = map (\<lambda>e. Some (parseFloat e)) [showNat 10 r, showNat 10 g, showNat 10 bl]\<rparr>"
    unfolding hx by (rule decomposeColor_join) (simp_all add: isColorType_cases showNat_no_comma)
  have ih: "intToHex (Num (real r)) = [lowerChar a, lowerChar b]"
    "intToHex (Num (real g)) = [lowerChar c, lowerChar d]"
    "intToHex (Num (real bl)) = [lowerChar e, lowerChar f]"
    unfolding r_def g_def bl_def using dg by (simp_all only: intToHex_hex_pair)
  have "r < 256" "g < 256" "bl < 256"
    unfolding r_def g_def bl_def using dg by (simp_all only: hex_byte_value(1))
  then have "r < 2 ^ 53" "g < 2 ^ 53" "bl < 2 ^ 53" by simp_all
  then have pf: "parseFloat (showNat 10 r) = Num (real r)" "parseFloat (showNat 10 g) = Num (real g)"
    "parseFloat (showNat 10 bl) = Num (real bl)"
    by (simp_all only: parseFloat_showNat)
  have "rgbToHex (Str (hexToRgb h)) =
      Inr [CHR ''#'', lowerChar a, lowerChar b, lowerChar c, lowerChar d, lowerChar e, lowerChar f]"
    unfolding rgbToHex_def using st
    by (simp add: dc pf ih)
  then have 1: "rgbToHex (Str (hexToRgb h)) = Inr (toLowerCase h)"
    by (simp add: assms(1) body toLowerCase_def lowerChar_hash)
  show ?thesis using 1 toLowerCase_idem by simp
qed

theorem rgbToHex_hexToRgb_witness:
  "rgbToHex (Str (hexToRgb ''#1a2B3c'')) = Inr ''#1a2b3c''"
proof -
  have d: "\<forall>x \<in> set ''1a2B3c''. isDigit 16 x" by code_simp
  have l: "toLowerCase ''#1a2B3c'' = ''#1a2b3c''" by code_simp
  have "rgbToHex (Str (hexToRgb ''#1a2B3c'')) = Inr (toLowerCase ''#1a2B3c'')"
    using rgbToHex_hexToRgb [of "''#1a2B3c''" "''1a2B3c''"] d by simp
  then show ?thesis by (simp only: l)
qed

section \<open>Recomposing and decomposing\<close>

lemma takeWhile_snoc_stop: "\<not> P y \<Longrightarrow> takeWhile P (xs @ [y]) = takeWhile P xs"
  by (induction xs) auto

lemma dropWhile_snoc_stop: "\<not> P y \<Longrightarrow> dropWhile P (xs @ [y]) = dropWhile P xs @ [y]"
  by (induction xs) auto

lemma percent_plain:
  "\<not> isWhiteSpace CHR ''%''" "\<not> isDigit 10 CHR ''%''"
  by (simp_all add: isWhiteSpace_def isDigit10_iff)

lemma readSign_percent: "readSign (t @ ''%'') = (fst (readSign t), snd (readSign t) @ ''%'')"
  by (cases t) auto

lemma readFraction_percent:
  "readFraction (u @ ''%'') = (fst (readFraction u), snd (readFraction u) @ ''%'')"
  by (cases u) (auto simp: readFraction_def takeWhile_snoc_stop dropWhile_snoc_stop percent_plain)

lemma readExponent_percent: "readExponent (w @ ''%'') = readExponent w"
proof (cases w)
  case Nil
  then show ?thesis by (simp add: readExponent_def)
next
  case (Cons c cs)
  show ?thesis
    unfolding Cons readExponent_def
    by (simp add: readSign_percent takeWhile_snoc_stop percent_plain split_beta Let_def)
qed

lemma parseFloat_percent: "parseFloat (s @ ''%'') = parseFloat s"
  unfolding parseFloat_def
  by (simp add: dropWhile_snoc_stop takeWhile_snoc_stop readSign_percent readFraction_percent
      readExponent_percent percent_plain split_beta Let_def)

lemma parseInt_showNat:
  assumes "n < 2 ^ 53"
  shows "parseInt (showNat 10 n) 10 = Num (real n)"
proof -
  obtain d ds where d: "showNat 10 n = d # ds"
    using showNat_nonempty [of 10 n] by (cases "showNat 10 n") auto
  have dg: "\<forall>c \<in> set (showNat 10 n). isDigit 10 c"
    using showNat_digits [of 10] by simp
  then have "isDigit 10 d" using d by simp
  then have 1: "dropWhile isWhiteSpace (showNat 10 n) = showNat 10 n"
    and 2: "readSign (showNat 10 n) = (False, showNat 10 n)"
    unfolding d using isDigit10_not_space readSign_digit by simp_all
  have 3: "stripHexPrefix 10 (showNat 10 n) = showNat 10 n"
    by (simp add: stripHexPrefix_def)
  have 4: "takeWhile (isDigit 10) (showNat 10 n) = showNat 10 n"
    using dg by simp
  show ?thesis
    unfolding parseInt_def 1 2 Let_def prod.case 3 4
    by (simp add: showNat_nonempty digitsVal_showNat signed_def toDouble_nat [OF assms])
qed

lemma showFixed_chars:
  assumes "2 \<le> r" "r \<le> 16" "c \<in> set (showFixed r k v)"
  shows "isDigit r c \<or> c = CHR ''.''"
proof -
  have f: "0 \<le> v - of_int \<lfloor>v\<rfloor>" "v - of_int \<lfloor>v\<rfloor> < 1" by linarith+
  have "c \<in> set (showNat r (nat \<lfloor>v\<rfloor>)) \<or> c = CHR ''.''
      \<or> c \<in> set (fracDigits r k (v - of_int \<lfloor>v\<rfloor>))"
    using assms(3) by (auto simp: showFixed_def Let_def split: if_splits)
  then show ?thesis
    using showNat_digits [OF assms(1,2)] fracDigits_digits [OF assms(1,2) f] by blast
qed

lemma showPos_chars:
  assumes "c \<in> set (showPos v)"
  shows "isDigit 10 c \<or> c \<in> set ''.e+-''"
proof -
  have sf: "\<And>k m. c \<in> set (showFixed 10 k m) \<Longrightarrow> isDigit 10 c \<or> c = CHR ''.''"
    by (rule showFixed_chars) simp_all
  have sn: "\<And>e. c \<in> set (showNat 10 e) \<Longrightarrow> isDigit 10 c"
    by (rule showNat_digits [rotated 2]) simp_all
  show ?thesis
    using assms sf sn
    by (auto simp: showPos_def split_beta split: if_splits)
qed

lemma numToString_chars:
  assumes "c \<in> set (numToString x)"
  shows "isDigit 10 c \<or> c \<in> set ''.e+-Na''"
proof (cases x)
  case NaN
  then show ?thesis using assms by auto
next
  case (Num v)
  then have "c = CHR ''0'' \<or> c = CHR ''-'' \<or> c \<in> set (showPos (shortest (- toDouble v)))
      \<or> c \<in> set (showPos (shortest (toDouble v)))"
    using assms by (auto simp: Let_def split: if_splits)
  moreover have "isDigit 10 CHR ''0''" by (simp add: isDigit10_iff)
  ultimately show ?thesis using showPos_chars by auto
qed

lemma numToString_no_comma: "CHR '','' \<notin> set (numToString x)"
proof
  assume "CHR '','' \<in> set (numToString x)"
  then have "isDigit 10 CHR '','' \<or> CHR '','' \<in> set ''.e+-Na''" by (rule numToString_chars)
  then show False by (simp add: isDigit10_iff)
qed

lemma byte_nat:
  fixes x :: real
  assumes "x \<in> \<int>" "0 \<le> x" "x \<le> 255"
  obtains n :: nat where "x = real n" "n < 256"
proof -
  obtain k :: int where k: "x = of_int k" using assms(1) by (auto elim: Ints_cases)
  then have "0 \<le> k" "k \<le> 255" using assms by simp_all
  then have "x = real (nat k)" "nat k < 256" using k by simp_all
  then show ?thesis by (rule that)
qed

lemma channel_entry:
  fixes x :: real
  assumes "x \<in> \<int>" "0 \<le> x" "x \<le> 255"
  shows "parseInt (numToString (Num x)) 10 = Num x"
    and "parseFloat (numToString (Num x)) = Num x"
proof -
  obtain n :: nat where n: "x = real n" "n < 256" using assms by (rule byte_nat)
  have n52: "n < 2 ^ 52" using n(2) by simp
  have n53: "n < 2 ^ 53" using n(2) by simp
  show "parseInt (numToString (Num x)) 10 = Num x"
    unfolding n(1) numToString_nat [OF n52] using n53 by (rule parseInt_showNat)
  show "parseFloat (numToString (Num x)) = Num x"
    unfolding n(1) numToString_nat [OF n52] using n53 by (rule parseFloat_showNat)
qed

lemma recomposeColor_rgb:
  assumes "t = ''rgb'' \<or> t = ''rgba''"
    and "parseInt (numToString r) 10 = r" "parseInt (numToString g) 10 = g"
      "parseInt (numToString b) 10 = b"
    and "al = [] \<or> (\<exists>a. al = [a])"
  shows "recomposeColor \<lparr>type = t, values = map Some (r # g # b # al)\<rparr> =
    t @ ''('' @ join '', '' (map numToString (r # g # b # al)) @ '')''"
  using assms by (auto simp: recomposeColor_def startsWith_def)

lemma recomposeColor_hsl:
  assumes "t = ''hsl'' \<or> t = ''hsla''"
    and "al = [] \<or> (\<exists>a. al = [a])"
  shows "recomposeColor \<lparr>type = t, values = map Some (h # s # l # al)\<rparr> =
    t @ ''('' @ join '', '' (numToString h # (numToString s @ ''%'') # (numToString l @ ''%'')
                              # map numToString al) @ '')''"
  using assms by (auto simp: recomposeColor_def startsWith_def assign_def elemAt_def)

lemma no_comma_percent: "CHR '','' \<notin> set (numToString x @ ''%'')"
  using numToString_no_comma by simp

lemma roundtrip_exact:
  assumes c: "c = \<lparr>type = t, values = map (\<lambda>x. Some (Num x)) (x1 # x2 # x3 # al)\<rparr>"
    and kind: "((t = ''rgb'' \<or> t = ''hsl'') \<and> al = []) \<or>
               ((t = ''rgba'' \<or> t = ''hsla'') \<and>
                (\<exists>a. al = [a] \<and> parseFloat (numToString (Num a)) = Num a))"
    and rgb: "t = ''rgb'' \<or> t = ''rgba'' \<Longrightarrow>
               \<forall>x \<in> {x1, x2, x3}. x \<in> \<int> \<and> 0 \<le> x \<and> x \<le> 255"
    and hsl: "t = ''hsl'' \<or> t = ''hsla'' \<Longrightarrow>
               \<forall>x \<in> {x1, x2, x3}. parseFloat (numToString (Num x)) = Num x"
  shows "decomposeColor (Str (recomposeColor c)) = Inr c"
proof -
  have ct: "isColorType t" using kind by (auto simp: isColorType_cases)
  have al: "al = [] \<or> (\<exists>a. al = [a])" using kind by blast
  have pa: "map (\<lambda>x. Some (parseFloat (numToString (Num x)))) al = map (\<lambda>x. Some (Num x)) al"
    using kind by auto
  have v: "map (\<lambda>x. Some (Num x)) (x1 # x2 # x3 # al) = map Some (Num x1 # Num x2 # Num x3 # map Num al)"
    by simp
  consider "t = ''rgb'' \<or> t = ''rgba''" | "t = ''hsl'' \<or> t = ''hsla''"
    using kind by blast
  then show ?thesis
  proof cases
    case 1
    note ch = channel_entry [of x1] channel_entry [of x2] channel_entry [of x3]
    have e: "parseInt (numToString (Num x1)) 10 = Num x1" "parseInt (numToString (Num x2)) 10 = Num x2"
      "parseInt (numToString (Num x3)) 10 = Num x3"
      "parseFloat (numToString (Num x1)) = Num x1" "parseFloat (numToString (Num x2)) = Num x2"
      "parseFloat (numToString (Num x3)) = Num x3"
      using rgb [OF 1] ch by simp_all
    have r: "recomposeColor c =
      t @ ''('' @ join '', '' (map numToString (Num x1 # Num x2 # Num x3 # map Num al)) @ '')''"
      unfolding c v by (rule recomposeColor_rgb [OF 1 e(1-3)]) (use al in auto)
    have "decomposeColor (Str (recomposeColor c)) =
      Inr \<lparr>type = t, values = map (\<lambda>e. Some (parseFloat e))
                                  (map numToString (Num x1 # Num x2 # Num x3 # map Num al))\<rparr>"
      unfolding r by (rule decomposeColor_join [OF ct]) (auto simp: numToString_no_comma simp del: numToString.simps)
    also have "\<dots> = Inr c"
      unfolding c using e(4-6) pa by (simp add: comp_def del: numToString.simps)
    finally show ?thesis .
  next
    case 2
    have e: "parseFloat (numToString (Num x1)) = Num x1" "parseFloat (numToString (Num x2)) = Num x2"
      "parseFloat (numToString (Num x3)) = Num x3"
      using hsl [OF 2] by simp_all
    have r: "recomposeColor c =
      t @ ''('' @ join '', '' (numToString (Num x1) # (numToString (Num x2) @ ''%'')
                                # (numToString (Num x3) @ ''%'') # map numToString (map Num al)) @ '')''"
      unfolding c v by (rule recomposeColor_hsl [OF 2]) (use al in auto)
    have "decomposeColor (Str (recomposeColor c)) =
      Inr \<lparr>type = t, values = map (\<lambda>e. Some (parseFloat e))
                (numToString (Num x1) # (numToString (Num x2) @ ''%'')
                   # (numToString (Num x3) @ ''%'') # map numToString (map Num al))\<rparr>"
      unfolding r
      by (rule decomposeColor_join [OF ct])
         (auto simp: numToString_no_comma simp del: numToString.simps)
    also have "\<dots> = Inr c"
      unfolding c using e pa
      by (simp add: comp_def parseFloat_percent del: numToString.simps)
    finally show ?thesis .
  qed
qed

lemma numToString_read_range:
  assumes "isDouble x" and "0 \<le> x" and "x \<le> 360"
  shows "parseFloat (numToString (Num x)) = Num x"
proof -
  have "x < 10 ^ 20" using assms(3) by (rule le_less_trans) simp
  with assms(1,2) show ?thesis by (rule numToString_read)
qed

text \<open>
  C2, as the source has it: a colour of type \<open>rgb\<close>, \<open>rgba\<close>, \<open>hsl\<close> or \<open>hsla\<close> with three
  values, and a fourth exactly for \<open>rgba\<close> and \<open>hsla\<close>, all within their ranges, is
  decomposed from its recomposed string unchanged, provided that red, green and blue are
  integers. Hue, saturation, lightness and alpha are any doubles of their ranges
  (\<open>isDouble\<close> says that a real of the model is a value of the type \<open>number\<close>): they are
  printed with the shortest digits that read back as the same double.
\<close>

theorem decomposeColor_recomposeColor:
  assumes c: "c = \<lparr>type = t, values = map (\<lambda>x. Some (Num x)) (x1 # x2 # x3 # al)\<rparr>"
    and kind: "((t = ''rgb'' \<or> t = ''hsl'') \<and> al = []) \<or>
               ((t = ''rgba'' \<or> t = ''hsla'') \<and>
                (\<exists>a. al = [a] \<and> 0 \<le> a \<and> a \<le> 1 \<and> isDouble a))"
    and rgb: "t = ''rgb'' \<or> t = ''rgba'' \<Longrightarrow>
               \<forall>x \<in> {x1, x2, x3}. x \<in> \<int> \<and> 0 \<le> x \<and> x \<le> 255"
    and hsl: "t = ''hsl'' \<or> t = ''hsla'' \<Longrightarrow>
               0 \<le> x1 \<and> x1 < 360 \<and> 0 \<le> x2 \<and> x2 \<le> 100 \<and> 0 \<le> x3 \<and> x3 \<le> 100
               \<and> (\<forall>x \<in> {x1, x2, x3}. isDouble x)"
  shows "decomposeColor (Str (recomposeColor c)) = Inr c"
proof (rule roundtrip_exact [OF c])
  have p: "parseFloat (numToString (Num x)) = Num x" if "isDouble x" "0 \<le> x" "x \<le> 360" for x
    using that by (rule numToString_read_range)
  show "((t = ''rgb'' \<or> t = ''hsl'') \<and> al = []) \<or>
        ((t = ''rgba'' \<or> t = ''hsla'') \<and> (\<exists>a. al = [a] \<and> parseFloat (numToString (Num a)) = Num a))"
    using kind p by fastforce
  show "\<forall>x \<in> {x1, x2, x3}. x \<in> \<int> \<and> 0 \<le> x \<and> x \<le> 255" if "t = ''rgb'' \<or> t = ''rgba''"
    using rgb [OF that] .
  show "\<forall>x \<in> {x1, x2, x3}. parseFloat (numToString (Num x)) = Num x" if "t = ''hsl'' \<or> t = ''hsla''"
    using hsl [OF that] p by simp
qed

theorem decomposeColor_recomposeColor_witness:
  "decomposeColor (Str (recomposeColor
      \<lparr>type = ''hsla'', values = [Some (Num 120), Some (Num 50), Some (Num 25), Some (Num 0.5)]\<rparr>))
    = Inr \<lparr>type = ''hsla'', values = [Some (Num 120), Some (Num 50), Some (Num 25), Some (Num 0.5)]\<rparr>
   \<and> decomposeColor (Str (recomposeColor
      \<lparr>type = ''rgb'', values = [Some (Num 12), Some (Num 0), Some (Num 255)]\<rparr>))
    = Inr \<lparr>type = ''rgb'', values = [Some (Num 12), Some (Num 0), Some (Num 255)]\<rparr>
   \<and> decomposeColor (Str (recomposeColor
      \<lparr>type = ''hsl'', values = [Some (Num (3602879701896397 / 36028797018963968)),
                                  Some (Num 50), Some (Num 25)]\<rparr>))
    = Inr \<lparr>type = ''hsl'', values = [Some (Num (3602879701896397 / 36028797018963968)),
                                      Some (Num 50), Some (Num 25)]\<rparr>"
proof -
  have i: "isDouble 120" "isDouble 50" "isDouble 25" "isDouble 0.5"
    "isDouble (3602879701896397 / 36028797018963968)"
    by code_simp+
  have 1: "decomposeColor (Str (recomposeColor
      \<lparr>type = ''hsla'', values = [Some (Num 120), Some (Num 50), Some (Num 25), Some (Num 0.5)]\<rparr>))
    = Inr \<lparr>type = ''hsla'', values = [Some (Num 120), Some (Num 50), Some (Num 25), Some (Num 0.5)]\<rparr>"
  proof (rule decomposeColor_recomposeColor [of _ "''hsla''" 120 50 25 "[0.5]"])
    show "((''hsla'' = ''rgb'' \<or> ''hsla'' = ''hsl'') \<and> [0.5::real] = []) \<or>
          ((''hsla'' = ''rgba'' \<or> ''hsla'' = ''hsla'') \<and>
           (\<exists>a. [0.5::real] = [a] \<and> 0 \<le> a \<and> a \<le> 1 \<and> isDouble a))"
      using i(4) by (intro disjI2 conjI exI [of _ "0.5"]) simp_all
  qed (use i in simp_all)
  have 2: "decomposeColor (Str (recomposeColor
      \<lparr>type = ''rgb'', values = [Some (Num 12), Some (Num 0), Some (Num 255)]\<rparr>))
    = Inr \<lparr>type = ''rgb'', values = [Some (Num 12), Some (Num 0), Some (Num 255)]\<rparr>"
    by (rule decomposeColor_recomposeColor [of _ "''rgb''" 12 0 255 "[]"]) simp_all
  have 3: "decomposeColor (Str (recomposeColor
      \<lparr>type = ''hsl'', values = [Some (Num (3602879701896397 / 36028797018963968)),
                                  Some (Num 50), Some (Num 25)]\<rparr>))
    = Inr \<lparr>type = ''hsl'', values = [Some (Num (3602879701896397 / 36028797018963968)),
                                      Some (Num 50), Some (Num 25)]\<rparr>"
    by (rule decomposeColor_recomposeColor
          [of _ "''hsl''" "3602879701896397 / 36028797018963968" 50 25 "[]"])
       (use i in simp_all)
  show ?thesis using 1 2 3 by simp
qed

text \<open>
  The double nearest to a tenth is printed as \<open>0.1\<close>, and a colour with that hue as
  \<open>hsl(0.1, 50%, 25%)\<close>.
\<close>

lemma recomposeColor_tenth:
  "recomposeColor \<lparr>type = ''hsl'', values = [Some (Num (3602879701896397 / 36028797018963968)),
                                              Some (Num 50), Some (Num 25)]\<rparr>
     = ''hsl(0.1, 50%, 25%)''"
  by code_simp

text \<open>A red of 12.5 lies in the range and comes back as 12.\<close>

theorem recomposeColor_truncates_fraction:
  "(0::real) \<le> 12.5 \<and> (12.5::real) \<le> 255
   \<and> recomposeColor \<lparr>type = ''rgb'', values = [Some (Num 12.5), Some (Num 0), Some (Num 0)]\<rparr>
       = ''rgb(12, 0, 0)''
   \<and> decomposeColor (Str ''rgb(12, 0, 0)'')
       = Inr \<lparr>type = ''rgb'', values = [Some (Num 12), Some (Num 0), Some (Num 0)]\<rparr>
   \<and> decomposeColor (Str (recomposeColor
         \<lparr>type = ''rgb'', values = [Some (Num 12.5), Some (Num 0), Some (Num 0)]\<rparr>))
       \<noteq> Inr \<lparr>type = ''rgb'', values = [Some (Num 12.5), Some (Num 0), Some (Num 0)]\<rparr>"
proof -
  have r: "recomposeColor \<lparr>type = ''rgb'', values = [Some (Num 12.5), Some (Num 0), Some (Num 0)]\<rparr>
       = ''rgb(12, 0, 0)''"
    by code_simp
  have d: "decomposeColor (Str ''rgb(12, 0, 0)'')
       = Inr \<lparr>type = ''rgb'', values = [Some (Num 12), Some (Num 0), Some (Num 0)]\<rparr>"
    by code_simp
  show ?thesis unfolding r d by simp
qed

end
